theory Spec2Isabelle
  imports Complex_Main "HOL-Library.Word"
begin

section \<open>Byte strings and the \<open>struct\<close> codec\<close>

text \<open>
  The module works on Python \<open>bytes\<close> values, modelled as lists of 8-bit words, and
  on Python integers, which are unbounded and modelled as \<open>int\<close>. The only exception the
  module can raise is \<open>struct.error\<close>, from \<open>struct.pack\<close> (value out of range)
  and from \<open>struct.unpack\<close> (buffer of the wrong length).
\<close>

type_synonym byte = "8 word"

datatype error = StructError

text \<open>Sequencing of two computations that may raise: the first error wins.\<close>

definition and_then :: "error + 'a \<Rightarrow> ('a \<Rightarrow> error + 'b) \<Rightarrow> error + 'b" where
  "and_then r f = (case r of Inl e \<Rightarrow> Inl e | Inr x \<Rightarrow> f x)"

text \<open>Little-endian digits of an integer, two's complement for a negative one.\<close>

fun le_bytes :: "nat \<Rightarrow> int \<Rightarrow> byte list" where
  "le_bytes 0 v = []"
| "le_bytes (Suc n) v = word_of_int v # le_bytes n (v div 256)"

fun le_value :: "byte list \<Rightarrow> int" where
  "le_value [] = 0"
| "le_value (b # bs) = uint b + 256 * le_value bs"

text \<open>The byte-order prefix of a format string: \<open>>\<close> is big-endian, \<open><\<close> little-endian.\<close>

definition byte_order :: "bool \<Rightarrow> byte list \<Rightarrow> byte list" where
  "byte_order be bs = (if be then rev bs else bs)"

text \<open>
  \<open>struct.pack\<close> and \<open>struct.unpack\<close> for the integer formats \<open>B\<close>, \<open>H\<close>, \<open>I\<close>
  (unsigned, 1, 2 and 4 bytes) and \<open>h\<close>, \<open>i\<close> (signed, 2 and 4 bytes).
\<close>

definition pack_unsigned :: "nat \<Rightarrow> bool \<Rightarrow> int \<Rightarrow> error + byte list" where
  "pack_unsigned n be v =
     (if 0 \<le> v \<and> v < 256 ^ n then Inr (byte_order be (le_bytes n v)) else Inl StructError)"

definition pack_signed :: "nat \<Rightarrow> bool \<Rightarrow> int \<Rightarrow> error + byte list" where
  "pack_signed n be v =
     (if - (256 ^ n div 2) \<le> v \<and> v < 256 ^ n div 2
      then Inr (byte_order be (le_bytes n v)) else Inl StructError)"

definition unpack_unsigned :: "nat \<Rightarrow> bool \<Rightarrow> byte list \<Rightarrow> error + int" where
  "unpack_unsigned n be data =
     (if length data = n then Inr (le_value (byte_order be data)) else Inl StructError)"

definition unpack_signed :: "nat \<Rightarrow> bool \<Rightarrow> byte list \<Rightarrow> error + int" where
  "unpack_signed n be data =
     (if length data = n
      then Inr (let u = le_value (byte_order be data)
                in if 256 ^ n div 2 \<le> u then u - 256 ^ n else u)
      else Inl StructError)"

subsection \<open>The primitive codec\<close>

definition byte2py_int :: "byte list \<Rightarrow> error + int" where
  "byte2py_int data = unpack_unsigned 1 False data"

definition py_int2byte :: "int \<Rightarrow> error + byte list" where
  "py_int2byte val = pack_unsigned 1 False val"

definition word2py_int :: "byte list \<Rightarrow> bool \<Rightarrow> error + int" where
  "word2py_int data be = unpack_unsigned 2 be data"

definition signed_word2py_int :: "byte list \<Rightarrow> bool \<Rightarrow> error + int" where
  "signed_word2py_int data be = unpack_signed 2 be data"

definition py_int2word :: "int \<Rightarrow> bool \<Rightarrow> error + byte list" where
  "py_int2word val be = pack_unsigned 2 be val"

definition py_int2signed_word :: "int \<Rightarrow> bool \<Rightarrow> error + byte list" where
  "py_int2signed_word val be = pack_signed 2 be val"

definition dword2py_int :: "byte list \<Rightarrow> bool \<Rightarrow> error + int" where
  "dword2py_int data be = unpack_unsigned 4 be data"

definition signed_dword2py_int :: "byte list \<Rightarrow> bool \<Rightarrow> error + int" where
  "signed_dword2py_int data be = unpack_signed 4 be data"

definition py_int2dword :: "int \<Rightarrow> bool \<Rightarrow> error + byte list" where
  "py_int2dword val be = pack_unsigned 4 be val"

definition py_int2signed_dword :: "int \<Rightarrow> bool \<Rightarrow> error + byte list" where
  "py_int2signed_dword val be = pack_signed 4 be val"

subsection \<open>RIFF chunk size\<close>

definition get_chunk_size :: "byte list \<Rightarrow> error + int" where
  "get_chunk_size size_field =
     and_then (dword2py_int size_field False)
       (\<lambda>size. Inr (if size mod 2 = 0 then size else size + 1))"

subsection \<open>Extraction of the DIB\<close>

text \<open>The slice \<open>bmp[14:]\<close>; slicing a \<open>bytes\<close> value never raises.\<close>

definition bmp_to_dib :: "byte list \<Rightarrow> error + byte list" where
  "bmp_to_dib bmp = Inr (drop 14 bmp)"

section \<open>Python numbers\<close>

text \<open>
  \<open>dib_to_bmp\<close> mixes Python integers with floats: \<open>math.pow\<close> returns a float,
  \<open>int + float\<close> and \<open>int / float\<close> are float operations, and \<open>math.ceil\<close> brings
  the result back to an integer. A finite float is an IEEE 754 binary64 number; it is
  represented here by the rational it denotes, and every float operation returns the exact
  result rounded to the nearest binary64 number, ties to the even significand. All floats
  of this module are non-negative and below \<open>2 ^ 35\<close>, so infinities, NaN and the sign
  of zero do not arise.
\<close>

text \<open>The number of binary digits of a natural number.\<close>

fun bitlen :: "nat \<Rightarrow> nat" where
  "bitlen n = (if n = 0 then 0 else Suc (bitlen (n div 2)))"

declare bitlen.simps [simp del]

text \<open>The binary exponent of a positive rational: \<open>2 ^ ilog2 x \<le> x < 2 ^ (ilog2 x + 1)\<close>.\<close>

definition ilog2 :: "rat \<Rightarrow> int" where
  "ilog2 x = (if 1 \<le> x then int (bitlen (nat \<lfloor>x\<rfloor>)) - 1
              else - int (bitlen (nat (\<lceil>1 / x\<rceil> - 1))))"

definition round_half_even :: "rat \<Rightarrow> int" where
  "round_half_even q =
     (let f = \<lfloor>q\<rfloor>; r = q - of_int f
      in if r < 1 / 2 then f else if 1 / 2 < r then f + 1 else if even f then f else f + 1)"

text \<open>
  Rounding to binary64: 53 significant bits, the exponent of the leading bit at least
  \<open>-1022\<close>, so that the last place is never finer than \<open>2 ^ -1074\<close> (subnormal numbers).
\<close>

definition fl :: "rat \<Rightarrow> rat" where
  "fl x = (if x = 0 then 0
           else let e = max (ilog2 \<bar>x\<bar>) (- 1022); u = 2 powi (e - 52)
                in of_int (round_half_even (x / u)) * u)"

datatype pynum = PyInt int | PyFloat rat

text \<open>The value a Python number denotes, and its conversion to float.\<close>

fun py_value :: "pynum \<Rightarrow> rat" where
  "py_value (PyInt i) = of_int i"
| "py_value (PyFloat x) = x"

fun py_float :: "pynum \<Rightarrow> rat" where
  "py_float (PyInt i) = fl (of_int i)"
| "py_float (PyFloat x) = x"

text \<open>\<open>a + b\<close> and \<open>a * b\<close>: integer arithmetic on two integers, float arithmetic otherwise.\<close>

fun py_add :: "pynum \<Rightarrow> pynum \<Rightarrow> pynum" where
  "py_add (PyInt a) (PyInt b) = PyInt (a + b)"
| "py_add a b = PyFloat (fl (py_float a + py_float b))"

fun py_mul :: "pynum \<Rightarrow> pynum \<Rightarrow> pynum" where
  "py_mul (PyInt a) (PyInt b) = PyInt (a * b)"
| "py_mul a b = PyFloat (fl (py_float a * py_float b))"

text \<open>\<open>a / b\<close> with a float divisor; the only divisor in the module is \<open>4.0\<close>.\<close>

definition py_truediv :: "pynum \<Rightarrow> pynum \<Rightarrow> pynum" where
  "py_truediv a b = PyFloat (fl (py_float a / py_float b))"

text \<open>
  \<open>math.pow(2, y)\<close> for an integer \<open>y\<close>: the float nearest to \<open>2 ^ y\<close>, which is
  \<open>0.0\<close> below the subnormal range (Python reports no underflow). The module calls it
  with \<open>y \<le> 8\<close> only, far from the overflow that would raise \<open>OverflowError\<close>.
\<close>

definition math_pow2 :: "int \<Rightarrow> pynum" where
  "math_pow2 y = PyFloat (fl (2 powi y))"

fun math_ceil :: "pynum \<Rightarrow> int" where
  "math_ceil (PyInt i) = i"
| "math_ceil (PyFloat x) = \<lceil>x\<rceil>"

section \<open>The bitmap transcoder\<close>

text \<open>The slice \<open>xs[i:j]\<close> for \<open>0 \<le> i\<close> and \<open>0 \<le> j\<close>; it never raises.\<close>

definition subrange :: "nat \<Rightarrow> nat \<Rightarrow> 'a list \<Rightarrow> 'a list" where
  "subrange i j xs = drop i (take j xs)"

text \<open>
  The first part of \<open>dib_to_bmp\<close>, up to the alignment: the value of \<open>offset\<close>, the
  header size plus the size of the palette.
\<close>

definition dib_offset :: "byte list \<Rightarrow> error + pynum" where
  "dib_offset dib =
     and_then (unpack_unsigned 4 False (take 4 dib)) (\<lambda>dib_header_size.
       if dib_header_size = 12 then
         and_then (unpack_signed 2 False (subrange 10 12 dib)) (\<lambda>bitsperpixel.
           Inr (if \<not> bitsperpixel > 8
                then py_add (PyInt dib_header_size)
                       (py_mul (math_pow2 bitsperpixel) (PyInt 3))
                else PyInt dib_header_size))
       else
         and_then (unpack_signed 2 False (subrange 14 16 dib)) (\<lambda>bitsperpixel.
         and_then (unpack_unsigned 4 False (subrange 32 36 dib)) (\<lambda>colorsnum.
           Inr (if bitsperpixel > 8
                then py_add (PyInt dib_header_size) (py_mul (PyInt colorsnum) (PyInt 3))
                else py_add (PyInt dib_header_size)
                       (py_mul (math_pow2 bitsperpixel) (PyInt 3))))))"

text \<open>The second part: alignment to 4 bytes and the 14-byte file header (\<open>BM\<close> is 66, 77).\<close>

definition dib_to_bmp :: "byte list \<Rightarrow> error + byte list" where
  "dib_to_bmp dib =
     and_then (dib_offset dib) (\<lambda>offset.
       let offset = math_ceil (py_truediv offset (PyFloat 4)) * 4 in
       and_then (pack_unsigned 4 False (14 + offset)) (\<lambda>pixel_offset.
       and_then (pack_unsigned 4 False (14 + int (length dib))) (\<lambda>file_size.
         Inr ([66, 77] @ file_size @ [0, 0, 0, 0] @ pixel_offset @ dib))))"

text \<open>
  The amount that \<open>dib_to_bmp\<close> adds to the header size, by itself: the same reads and
  the same branches as \<open>dib_offset\<close>, with the integer 0 in the branch that adds nothing.
\<close>

definition dib_palette :: "byte list \<Rightarrow> error + pynum" where
  "dib_palette dib =
     and_then (unpack_unsigned 4 False (take 4 dib)) (\<lambda>dib_header_size.
       if dib_header_size = 12 then
         and_then (unpack_signed 2 False (subrange 10 12 dib)) (\<lambda>bitsperpixel.
           Inr (if \<not> bitsperpixel > 8
                then py_mul (math_pow2 bitsperpixel) (PyInt 3)
                else PyInt 0))
       else
         and_then (unpack_signed 2 False (subrange 14 16 dib)) (\<lambda>bitsperpixel.
         and_then (unpack_unsigned 4 False (subrange 32 36 dib)) (\<lambda>colorsnum.
           Inr (if bitsperpixel > 8
                then py_mul (PyInt colorsnum) (PyInt 3)
                else py_mul (math_pow2 bitsperpixel) (PyInt 3)))))"

section \<open>The specification's reading of the bitmap header\<close>

text \<open>
  The header fields as the specification reads them: \<open>header_size\<close> is the unsigned
  32-bit little-endian value of the first four bytes; in the legacy layout
  (\<open>header_size = 12\<close>) \<open>bits_per_pixel\<close> is the signed 16-bit value at offset 10 and
  there is no \<open>colors_used\<close> field (0 stands for it); in the modern layout
  \<open>bits_per_pixel\<close> is at offset 14 and \<open>colors_used\<close> is the unsigned 32-bit value
  at offset 32.
\<close>

definition spec_fields :: "byte list \<Rightarrow> error + int \<times> int \<times> int" where
  "spec_fields dib =
     and_then (dword2py_int (subrange 0 4 dib) False) (\<lambda>header_size.
       if header_size = 12 then
         and_then (signed_word2py_int (subrange 10 12 dib) False) (\<lambda>bits_per_pixel.
           Inr (header_size, bits_per_pixel, 0))
       else
         and_then (signed_word2py_int (subrange 14 16 dib) False) (\<lambda>bits_per_pixel.
         and_then (dword2py_int (subrange 32 36 dib) False) (\<lambda>colors_used.
           Inr (header_size, bits_per_pixel, colors_used))))"

text \<open>The palette size in bytes as the specification gives it, in exact arithmetic.\<close>

definition spec_palette_size :: "int \<Rightarrow> int \<Rightarrow> int \<Rightarrow> rat" where
  "spec_palette_size header_size bits_per_pixel colors_used =
     (if header_size = 12
      then (if bits_per_pixel \<le> 8 then 2 powi bits_per_pixel * 3 else 0)
      else (if bits_per_pixel > 8 then of_int colors_used * 3
            else 2 powi bits_per_pixel * 3))"

text \<open>Rounding up to the next multiple of 4.\<close>

definition round_up4 :: "rat \<Rightarrow> int" where
  "round_up4 x = \<lceil>x / 4\<rceil> * 4"

text \<open>
  The 14-byte file header of the BMP container: the magic \<open>BM\<close>, the file size, four
  zero bytes and the pixel offset, both sizes as unsigned 32-bit little-endian values.
\<close>

definition spec_file_header :: "int \<Rightarrow> int \<Rightarrow> byte list" where
  "spec_file_header file_size pixel_offset =
     [66, 77] @ le_bytes 4 file_size @ [0, 0, 0, 0] @ le_bytes 4 pixel_offset"

text \<open>
  The value of \<open>offset\<close> before the alignment, in closed form: a float when the
  palette term comes from \<open>math.pow\<close>, an integer otherwise.
\<close>

definition region_of :: "int \<Rightarrow> int \<Rightarrow> int \<Rightarrow> pynum" where
  "region_of h bpp c =
     (if bpp \<le> 8
      then PyFloat (fl (of_int h + (if - 1074 \<le> bpp then 3 * 2 powi bpp else 0)))
      else PyInt (h + c * 3))"

section \<open>Properties of the codec\<close>

lemma length_le_bytes [simp]: "length (le_bytes n v) = n"
  by (induction n arbitrary: v) simp_all

lemma length_byte_order [simp]: "length (byte_order be bs) = length bs"
  by (simp add: byte_order_def)

lemma byte_order_twice [simp]: "byte_order be (byte_order be bs) = bs"
  by (simp add: byte_order_def)

lemma le_value_le_bytes: "le_value (le_bytes n v) = v mod 256 ^ n"
proof (induction n arbitrary: v)
  case 0
  show ?case by simp
next
  case (Suc n)
  have "uint (word_of_int v :: byte) = v mod 256"
    by (simp add: uint_word_of_int)
  with Suc show ?case
    using zmod_zmult2_eq [of "256 ^ n" v 256] by simp
qed

lemma le_value_bounds: "0 \<le> le_value bs \<and> le_value bs < 256 ^ length bs"
proof (induction bs)
  case Nil
  show ?case by simp
next
  case (Cons b bs)
  have "uint b < 256" using uint_bounded [of b] by simp
  moreover have "0 \<le> uint b" by simp
  ultimately show ?case using Cons by simp
qed

lemma unpack_pack_unsigned:
  "0 \<le> v \<Longrightarrow> v < 256 ^ n \<Longrightarrow>
   and_then (pack_unsigned n be v) (unpack_unsigned n be) = Inr v"
  by (simp add: and_then_def pack_unsigned_def unpack_unsigned_def le_value_le_bytes)

lemma unpack_pack_signed:
  assumes "- (256 ^ n div 2) \<le> v" "v < 256 ^ n div 2" "0 < n"
  shows "and_then (pack_signed n be v) (unpack_signed n be) = Inr v"
proof -
  obtain m where n: "n = Suc m" using assms(3) by (cases n) auto
  have half: "(256::int) ^ n div 2 = 128 * 256 ^ m" by (simp add: n)
  have full: "(256::int) ^ n = 2 * (128 * 256 ^ m)" by (simp add: n)
  have val: "le_value (le_bytes n v) = v mod 256 ^ n"
    by (simp add: le_value_le_bytes)
  show ?thesis
  proof (cases "0 \<le> v")
    case True
    then have "v mod 256 ^ n = v" using assms(2) half full by simp
    then show ?thesis
      using assms val by (simp add: and_then_def pack_signed_def unpack_signed_def Let_def)
  next
    case False
    then have "v mod 256 ^ n = v + 256 ^ n"
      using assms(1) half full
      by (smt (verit) mod_add_self2 mod_pos_pos_trivial)
    then show ?thesis
      using assms False val half full
      by (simp add: and_then_def pack_signed_def unpack_signed_def Let_def)
  qed
qed

lemma dword2py_int_total:
  "length size_field = 4 \<Longrightarrow>
   dword2py_int size_field False = Inr (le_value size_field) \<and>
   0 \<le> le_value size_field \<and> le_value size_field < 4294967296"
  using le_value_bounds [of size_field]
  by (simp add: dword2py_int_def unpack_unsigned_def byte_order_def)

section \<open>Properties of the rounding to binary64\<close>

lemma bitlen_bounds: "0 < n \<Longrightarrow> 2 ^ (bitlen n - 1) \<le> n \<and> n < 2 ^ bitlen n"
proof (induction n rule: bitlen.induct)
  case (1 n)
  show ?case
  proof (cases "n div 2 = 0")
    case True
    with "1.prems" have "n = 1" by presburger
    then show ?thesis by (simp add: bitlen.simps)
  next
    case False
    then have ih: "2 ^ (bitlen (n div 2) - 1) \<le> n div 2" "n div 2 < 2 ^ bitlen (n div 2)"
      using "1.IH" "1.prems" by auto
    have pos: "0 < bitlen (n div 2)"
      using False by (simp add: bitlen.simps)
    have bl: "bitlen n = Suc (bitlen (n div 2))"
      using "1.prems" by (subst bitlen.simps) simp
    have "(2::nat) ^ bitlen (n div 2) = 2 * 2 ^ (bitlen (n div 2) - 1)"
      using pos by (cases "bitlen (n div 2)") simp_all
    then have lo: "2 ^ bitlen (n div 2) \<le> n" using ih(1) by linarith
    have hi: "n < 2 * 2 ^ bitlen (n div 2)" using ih(2) by linarith
    show ?thesis using lo hi by (simp add: bl)
  qed
qed

lemma ilog2_ge_1:
  "1 \<le> x \<Longrightarrow> ilog2 x = int (bitlen (nat \<lfloor>x\<rfloor>) - 1)"
proof -
  assume x: "1 \<le> x"
  then have "0 < nat \<lfloor>x\<rfloor>" by simp
  then have "0 < bitlen (nat \<lfloor>x\<rfloor>)" by (subst bitlen.simps) simp
  then show ?thesis using x unfolding ilog2_def by simp
qed

lemma ilog2_less_1:
  "\<not> 1 \<le> x \<Longrightarrow> ilog2 x = - int (bitlen (nat (\<lceil>1 / x\<rceil> - 1)))"
  unfolding ilog2_def by simp

lemma ilog2_le:
  assumes "0 < x"
  shows "2 powi ilog2 x \<le> x"
proof (cases "1 \<le> x")
  case True
  define n where "n = nat \<lfloor>x\<rfloor>"
  have n0: "0 < n" using True by (simp add: n_def)
  have "rat_of_int \<lfloor>x\<rfloor> \<le> x" by (rule of_int_floor_le)
  moreover have "rat_of_nat n = rat_of_int \<lfloor>x\<rfloor>"
    using True by (simp add: n_def)
  ultimately have nx: "rat_of_nat n \<le> x" by simp
  have "ilog2 x = int (bitlen n - 1)"
    using ilog2_ge_1 [OF True] by (simp only: n_def)
  then have "(2::rat) powi ilog2 x = 2 ^ (bitlen n - 1)"
    by (simp only: power_int_of_nat)
  also have "\<dots> = rat_of_nat (2 ^ (bitlen n - 1))" by simp
  also have "\<dots> \<le> rat_of_nat n"
    using bitlen_bounds [OF n0] of_nat_le_iff by blast
  finally show ?thesis using nx by simp
next
  case False
  define c where "c = \<lceil>1 / x\<rceil>"
  define n where "n = nat (c - 1)"
  have "1 < 1 / x" using assms False by simp
  then have c: "2 \<le> c" unfolding c_def by linarith
  have n: "0 < n" "int n = c - 1" using c by (simp_all add: n_def)
  have "int n < 2 ^ bitlen n"
    using bitlen_bounds [OF n(1)] by (metis of_nat_less_iff of_nat_numeral of_nat_power)
  then have "c \<le> 2 ^ bitlen n" using n(2) by simp
  then have "rat_of_int c \<le> rat_of_int (2 ^ bitlen n)"
    by (simp only: of_int_le_iff)
  also have "rat_of_int (2 ^ bitlen n) = 2 ^ bitlen n" by simp
  finally have "rat_of_int c \<le> 2 ^ bitlen n" .
  moreover have "1 / x \<le> rat_of_int c" unfolding c_def by (rule le_of_int_ceiling)
  ultimately have "1 / x \<le> 2 ^ bitlen n" by (rule order_trans [rotated])
  then have "1 / 2 ^ bitlen n \<le> x"
    using assms by (simp add: field_simps)
  moreover have "ilog2 x = - int (bitlen n)"
    using ilog2_less_1 [OF False] by (simp only: n_def c_def)
  then have "(2::rat) powi ilog2 x = 1 / 2 ^ bitlen n"
    by (simp only: power_int_minus_divide power_int_of_nat)
  ultimately show ?thesis by simp
qed

lemma ilog2_gt:
  assumes "0 < x"
  shows "x < 2 powi (ilog2 x + 1)"
proof (cases "1 \<le> x")
  case True
  define n where "n = nat \<lfloor>x\<rfloor>"
  have n0: "0 < n" using True by (simp add: n_def)
  have "x < rat_of_int \<lfloor>x\<rfloor> + 1" by linarith
  moreover have "rat_of_nat n = rat_of_int \<lfloor>x\<rfloor>"
    using True by (simp add: n_def)
  ultimately have nx: "x < rat_of_nat n + 1" by simp
  have pos: "0 < bitlen n" using n0 by (subst bitlen.simps) simp
  have "n + 1 \<le> 2 ^ bitlen n" using bitlen_bounds [OF n0] by simp
  then have "rat_of_nat (n + 1) \<le> rat_of_nat (2 ^ bitlen n)"
    using of_nat_le_iff by blast
  then have "x < 2 ^ bitlen n" using nx by simp
  moreover have "ilog2 x + 1 = int (bitlen n)"
    using ilog2_ge_1 [OF True] pos by (simp add: n_def)
  then have "(2::rat) powi (ilog2 x + 1) = 2 ^ bitlen n"
    by (simp only: power_int_of_nat)
  ultimately show ?thesis by simp
next
  case False
  define c where "c = \<lceil>1 / x\<rceil>"
  define n where "n = nat (c - 1)"
  have "1 < 1 / x" using assms False by simp
  then have c: "2 \<le> c" unfolding c_def by linarith
  have n: "0 < n" "int n = c - 1" using c by (simp_all add: n_def)
  have pos: "0 < bitlen n" using n(1) by (subst bitlen.simps) simp
  have "2 ^ (bitlen n - 1) \<le> n" using bitlen_bounds [OF n(1)] by simp
  then have "rat_of_nat (2 ^ (bitlen n - 1)) \<le> rat_of_nat n"
    using of_nat_le_iff by blast
  moreover have "rat_of_nat n = rat_of_int c - 1"
    using n(2) by (metis of_int_1 of_int_diff of_int_of_nat_eq)
  moreover have "rat_of_int c - 1 < 1 / x" unfolding c_def by linarith
  ultimately have "2 ^ (bitlen n - 1) < 1 / x" by simp
  then have "x < 1 / 2 ^ (bitlen n - 1)"
    using assms by (simp add: field_simps)
  moreover have "ilog2 x + 1 = - int (bitlen n - 1)"
    using ilog2_less_1 [OF False] pos by (simp add: n_def c_def)
  then have "(2::rat) powi (ilog2 x + 1) = 1 / 2 ^ (bitlen n - 1)"
    by (simp only: power_int_minus_divide power_int_of_nat)
  ultimately show ?thesis by simp
qed

lemma ilog2_less_exp:
  assumes "0 < x" "x < 2 powi k"
  shows "ilog2 x < k"
proof (rule ccontr)
  assume "\<not> ilog2 x < k"
  then have "(2::rat) powi k \<le> 2 powi ilog2 x"
    by (intro power_int_increasing) simp_all
  with ilog2_le [OF assms(1)] assms(2) show False by simp
qed

lemma round_half_even_of_int [simp]: "round_half_even (of_int n) = n"
  by (simp add: round_half_even_def)

lemma fl_representable:
  assumes m: "\<bar>m\<bar> < 2 ^ 53" and e: "- 1074 \<le> e"
  shows "fl (of_int m * 2 powi e) = of_int m * 2 powi e"
proof (cases "m = 0")
  case True
  then show ?thesis by (simp add: fl_def)
next
  case False
  define x :: rat where "x = of_int m * 2 powi e"
  have xne: "x \<noteq> 0" using False by (simp add: x_def)
  have ax: "\<bar>x\<bar> = of_int \<bar>m\<bar> * 2 powi e"
    by (simp add: x_def abs_mult)
  have "rat_of_int \<bar>m\<bar> < rat_of_int (2 ^ 53)"
    using m by (simp only: of_int_less_iff)
  then have "rat_of_int \<bar>m\<bar> < 2 powi 53" by simp
  then have "\<bar>x\<bar> < 2 powi 53 * 2 powi e"
    unfolding ax by (intro mult_strict_right_mono) simp_all
  also have "\<dots> = 2 powi (e + 53)"
    by (simp add: power_int_add)
  finally have "ilog2 \<bar>x\<bar> < e + 53"
    using xne by (intro ilog2_less_exp) simp_all
  define e' where "e' = max (ilog2 \<bar>x\<bar>) (- 1022)"
  have e': "e' - 52 \<le> e"
    using \<open>ilog2 \<bar>x\<bar> < e + 53\<close> e by (simp add: e'_def)
  define k where "k = nat (e - (e' - 52))"
  have "e = int k + (e' - 52)" using e' by (simp add: k_def)
  then have "(2::rat) powi e = 2 powi (int k) * 2 powi (e' - 52)"
    by (metis power_int_add zero_neq_numeral)
  then have pe: "(2::rat) powi e = 2 ^ k * 2 powi (e' - 52)"
    by (simp only: power_int_of_nat)
  have "x / 2 powi (e' - 52) = of_int m * 2 ^ k"
    unfolding x_def pe by simp
  also have "\<dots> = rat_of_int (m * 2 ^ k)" by simp
  finally have q: "x / 2 powi (e' - 52) = rat_of_int (m * 2 ^ k)" .
  have "fl x = of_int (round_half_even (x / 2 powi (e' - 52))) * 2 powi (e' - 52)"
    using xne by (simp add: fl_def Let_def e'_def)
  also have "\<dots> = rat_of_int (m * 2 ^ k) * 2 powi (e' - 52)"
    by (simp only: q round_half_even_of_int)
  also have "\<dots> = x"
    unfolding x_def pe by simp
  finally show ?thesis by (simp only: x_def)
qed

lemma fl_of_int: "\<bar>m\<bar> < 2 ^ 53 \<Longrightarrow> fl (of_int m) = of_int m"
  using fl_representable [of m 0] by simp

lemma fl_underflow:
  assumes "b < - 1074"
  shows "fl (2 powi b) = 0"
proof -
  define x :: rat where "x = 2 powi b"
  have x: "0 < x" by (simp add: x_def)
  have "x < 2 powi (b + 1)"
    unfolding x_def by (intro power_int_strict_increasing) simp_all
  then have "ilog2 x < b + 1" using x by (rule ilog2_less_exp [rotated])
  then have mx: "max (ilog2 \<bar>x\<bar>) (- 1022) = - 1022"
    using assms x by simp
  define q :: rat where "q = x / 2 powi (- 1074)"
  have "q = 2 powi (b + 1074)"
    by (simp add: q_def x_def power_int_add power_int_minus field_simps)
  moreover have "(2::rat) powi (b + 1074) \<le> 2 powi (- 1)"
    using assms by (intro power_int_increasing) simp_all
  ultimately have q: "0 < q" "q \<le> 1 / 2"
    by (simp_all add: power_int_minus_divide)
  then have "\<lfloor>q\<rfloor> = 0" by (simp add: floor_eq_iff)
  then have "round_half_even q = 0"
    using q by (simp add: round_half_even_def)
  moreover have "fl x = of_int (round_half_even q) * 2 powi (- 1074)"
    using x mx by (simp add: fl_def Let_def q_def)
  ultimately show ?thesis by (simp add: x_def)
qed

lemma fl_representable_le:
  assumes m: "\<bar>m\<bar> \<le> 2 ^ 53" and e: "- 1074 \<le> e"
  shows "fl (of_int m * 2 powi e) = of_int m * 2 powi e"
proof (cases "\<bar>m\<bar> < 2 ^ 53")
  case True
  then show ?thesis using e by (rule fl_representable)
next
  case False
  with m have am: "\<bar>m\<bar> = 2 ^ 53" by simp
  define m' :: int where "m' = m div 2"
  from am have "m = 9007199254740992 \<or> m = - 9007199254740992"
    by (simp add: abs_if split: if_splits)
  then have mm: "m = m' * 2" "\<bar>m'\<bar> < 2 ^ 53"
    unfolding m'_def by auto
  have "(2::rat) powi (e + 1) = 2 powi e * 2"
    using power_int_add [of "2::rat" e 1] by simp
  then have "rat_of_int m * 2 powi e = rat_of_int m' * 2 powi (e + 1)"
    by (simp add: mm(1))
  moreover have "fl (rat_of_int m' * 2 powi (e + 1)) = rat_of_int m' * 2 powi (e + 1)"
    using mm(2) e by (intro fl_representable) simp_all
  ultimately show ?thesis by simp
qed

lemma round_half_even_bounds:
  assumes "rat_of_int a \<le> q" "q \<le> rat_of_int b"
  shows "a \<le> round_half_even q \<and> round_half_even q \<le> b"
proof -
  have lo: "a \<le> \<lfloor>q\<rfloor>" using assms(1) by (simp add: le_floor_iff)
  have hi: "\<lfloor>q\<rfloor> \<le> b" using assms(2) by (simp add: floor_le_iff)
  have step: "\<lfloor>q\<rfloor> + 1 \<le> b" if "q \<noteq> rat_of_int \<lfloor>q\<rfloor>"
  proof -
    have "rat_of_int \<lfloor>q\<rfloor> < q" using that of_int_floor_le [of q] by linarith
    then have "rat_of_int \<lfloor>q\<rfloor> < rat_of_int b" using assms(2) by linarith
    then show ?thesis by simp
  qed
  show ?thesis
    using lo hi step by (auto simp: round_half_even_def Let_def)
qed

lemma ilog2_nonneg: 
  assumes "1 \<le> y" shows "0 \<le> ilog2 y"
proof (rule ccontr)
  assume "\<not> 0 \<le> ilog2 y"
  then have "(2::rat) powi (ilog2 y + 1) \<le> 2 powi 0"
    by (intro power_int_increasing) simp_all
  moreover have "y < 2 powi (ilog2 y + 1)" using assms by (intro ilog2_gt) simp
  ultimately show False using assms by simp
qed

lemma fl_form:
  assumes "0 < y"
  shows "\<exists>M. 0 \<le> M \<and> M \<le> 2 ^ 53 \<and>
           fl y = of_int M * 2 powi (max (ilog2 y) (- 1022) - 52)"
proof -
  define e' where "e' = max (ilog2 y) (- 1022)"
  define u :: rat where "u = 2 powi (e' - 52)"
  have u: "0 < u" by (simp add: u_def)
  have "y < 2 powi (ilog2 y + 1)" using assms by (rule ilog2_gt)
  also have "\<dots> \<le> 2 powi (e' + 1)"
    by (intro power_int_increasing) (simp_all add: e'_def)
  also have "\<dots> = 2 powi 53 * u"
    unfolding u_def using power_int_add [of "2::rat" 53 "e' - 52"] by (simp add: add.commute)
  finally have "y / u < 2 powi 53" using u by (simp add: field_simps)
  then have "y / u \<le> rat_of_int (2 ^ 53)" by simp
  moreover have "rat_of_int 0 \<le> y / u" using assms u by simp
  ultimately have "0 \<le> round_half_even (y / u) \<and> round_half_even (y / u) \<le> 2 ^ 53"
    by (rule round_half_even_bounds [rotated])
  moreover have "fl y = of_int (round_half_even (y / u)) * u"
    using assms by (simp add: fl_def Let_def e'_def u_def)
  ultimately show ?thesis unfolding u_def e'_def by blast
qed

lemma fl_quarter:
  assumes "1 \<le> y"
  shows "fl (fl y / 4) = fl y / 4"
proof -
  have E: "0 \<le> ilog2 y" using assms by (rule ilog2_nonneg)
  then have mx: "max (ilog2 y) (- 1022) = ilog2 y" by simp
  obtain M where M: "0 \<le> M" "M \<le> 2 ^ 53"
      "fl y = of_int M * 2 powi (ilog2 y - 52)"
    using fl_form [of y] assms mx by auto
  have "(2::rat) powi (ilog2 y - 52) = 2 powi (ilog2 y - 54) * 2 powi 2"
    using power_int_add [of "2::rat" "ilog2 y - 54" 2] by simp
  then have q: "fl y / 4 = of_int M * 2 powi (ilog2 y - 54)"
    by (simp add: M(3))
  have "fl (of_int M * 2 powi (ilog2 y - 54)) = of_int M * 2 powi (ilog2 y - 54)"
    using M E by (intro fl_representable_le) simp_all
  then show ?thesis by (simp only: q)
qed

lemma fl_subnormal:
  assumes "0 < z" "z < 2 powi (- 1022)"
  shows "fl z = of_int (round_half_even (z / 2 powi (- 1074))) * 2 powi (- 1074)"
proof -
  have "ilog2 z < - 1022" using assms by (rule ilog2_less_exp)
  then have "max (ilog2 \<bar>z\<bar>) (- 1022) = - 1022" using assms(1) by simp
  then show ?thesis using assms(1) by (simp add: fl_def Let_def)
qed

lemma fl_nonneg: "0 \<le> y \<Longrightarrow> 0 \<le> fl y"
proof (cases "y = 0")
  case True
  then show ?thesis by (simp add: fl_def)
next
  case False
  assume "0 \<le> y"
  with False have "0 < y" by simp
  from fl_form [OF this] show ?thesis by auto
qed

lemma palette_term:
  "fl (fl (2 powi b) * fl 3) = (if - 1074 \<le> b then 3 * 2 powi b else 0)"
proof (cases "- 1074 \<le> b")
  case True
  have "fl (of_int 1 * 2 powi b) = of_int 1 * 2 powi b"
    using True by (intro fl_representable) simp_all
  then have p: "fl (2 powi b) = 2 powi b" by simp
  have t: "fl 3 = 3" using fl_of_int [of 3] by simp
  have "fl (of_int 3 * 2 powi b) = of_int 3 * 2 powi b"
    using True by (intro fl_representable) simp_all
  then show ?thesis using True by (simp add: p t mult.commute)
next
  case False
  then have "fl (2 powi b) = 0" by (intro fl_underflow) simp
  then show ?thesis using False by (simp add: fl_def)
qed

lemma ceiling_unit: "0 < (x::rat) \<Longrightarrow> x \<le> 1 \<Longrightarrow> \<lceil>x\<rceil> = 1"
  by (simp add: ceiling_eq_iff)

lemma ceil_fl_quarter_small:
  assumes "- 1074 \<le> b"
  shows "\<lceil>fl (3 * 2 powi b / 4)\<rceil> = \<lceil>(3 * 2 powi b / 4 :: rat)\<rceil>"
proof (cases "- 1072 \<le> b")
  case True
  have "(2::rat) powi b = 2 powi (b - 2) * 2 powi 2"
    using power_int_add [of "2::rat" "b - 2" 2] by simp
  then have q: "3 * 2 powi b / 4 = rat_of_int 3 * 2 powi (b - 2)" by simp
  have "fl (rat_of_int 3 * 2 powi (b - 2)) = rat_of_int 3 * 2 powi (b - 2)"
    using True by (intro fl_representable) simp_all
  then show ?thesis by (simp only: q)
next
  case False
  define u :: rat where "u = 2 powi (- 1074)"
  define z :: rat where "z = 3 * 2 powi b / 4"
  have u: "0 < u" "2 * u \<le> 1"
  proof -
    show "0 < u" by (simp add: u_def)
    have "(2::rat) powi (- 1074) \<le> 2 powi (- 1)"
      by (intro power_int_increasing) simp_all
    then show "2 * u \<le> 1" by (simp add: u_def power_int_minus_divide)
  qed
  have bb: "b = - 1074 \<or> b = - 1073" using assms False by linarith
  have "(2::rat) powi b = 2 powi (b + 1074) * 2 powi (- 1074)"
    using power_int_add [of "2::rat" "b + 1074" "- 1074"] by simp
  then have zq: "z = (3 * 2 powi (b + 1074) / 4) * u"
    by (simp add: z_def u_def)
  have zk: "z = 3 / 4 * u \<or> z = 3 / 2 * u"
    using bb zq by auto
  have z0: "0 < z" using zk u by auto
  have "(2::rat) powi (- 1022) = 2 powi 52 * u"
    unfolding u_def using power_int_add [of "2::rat" 52 "- 1074"] by simp
  then have "2 * u \<le> 2 powi (- 1022)" using u(1) by simp
  then have zs: "z < 2 powi (- 1022)" using zk u by auto
  have flz: "fl z = of_int (round_half_even (z / u)) * u"
    using fl_subnormal [OF z0 zs] by (simp only: u_def)
  have f34: "\<lfloor>3 / 4 :: rat\<rfloor> = 0" by (simp add: floor_eq_iff)
  have r1: "round_half_even (3 / 4) = 1"
    by (simp add: round_half_even_def Let_def f34)
  have f32: "\<lfloor>3 / 2 :: rat\<rfloor> = 1" by (simp add: floor_eq_iff)
  have r2: "round_half_even (3 / 2) = 2"
    by (simp add: round_half_even_def Let_def f32)
  have "z / u = 3 / 4 \<or> z / u = 3 / 2"
    using zk u(1) by auto
  then have "round_half_even (z / u) = 1 \<or> round_half_even (z / u) = 2"
    using r1 r2 by presburger
  then have "fl z = u \<or> fl z = 2 * u"
    unfolding flz by auto
  then have "\<lceil>fl z\<rceil> = 1" using u by (intro ceiling_unit) auto
  moreover have "\<lceil>z\<rceil> = 1" using zk u by (intro ceiling_unit) auto
  ultimately show ?thesis by (simp add: z_def)
qed

text \<open>The rounded value is within half a unit in the last place of the exact one.\<close>

lemma round_half_even_error: "\<bar>of_int (round_half_even q) - q\<bar> \<le> 1 / 2"
proof -
  define f where "f = \<lfloor>q\<rfloor>"
  have f: "rat_of_int f \<le> q" "q < rat_of_int f + 1" unfolding f_def by linarith+
  have "round_half_even q =
      (if q - of_int f < 1 / 2 then f else if 1 / 2 < q - of_int f then f + 1
       else if even f then f else f + 1)"
    by (simp add: round_half_even_def Let_def f_def)
  then consider "round_half_even q = f" "q - of_int f \<le> 1 / 2"
    | "round_half_even q = f + 1" "1 / 2 \<le> q - of_int f"
    by (auto split: if_splits)
  then show ?thesis
  proof cases
    case 1
    then show ?thesis using f by (simp add: abs_if)
  next
    case 2
    then show ?thesis using f by (simp add: abs_if)
  qed
qed

lemma fl_nearest:
  assumes "x \<noteq> 0"
  shows "\<bar>fl x - x\<bar> \<le> 2 powi (max (ilog2 \<bar>x\<bar>) (- 1022) - 52) / 2"
proof -
  define u :: rat where "u = 2 powi (max (ilog2 \<bar>x\<bar>) (- 1022) - 52)"
  have u: "0 < u" by (simp add: u_def)
  have "fl x - x = (of_int (round_half_even (x / u)) - x / u) * u"
    using assms u by (simp add: fl_def Let_def u_def field_simps)
  then have "\<bar>fl x - x\<bar> = \<bar>of_int (round_half_even (x / u)) - x / u\<bar> * u"
    using u by (simp add: abs_mult)
  also have "\<dots> \<le> 1 / 2 * u"
    using u round_half_even_error [of "x / u"] by (intro mult_right_mono) simp_all
  finally show ?thesis by (simp add: u_def)
qed

section \<open>Properties of \<open>dib_to_bmp\<close>\<close>

lemma unpack_unsigned_Inr:
  "unpack_unsigned n be data = Inr v \<Longrightarrow> length data = n \<and> 0 \<le> v \<and> v < 256 ^ n"
  using le_value_bounds [of "byte_order be data"]
  by (auto simp: unpack_unsigned_def split: if_splits)

lemma unpack_unsigned_Inl:
  "unpack_unsigned n be data = Inl e \<longleftrightarrow> length data \<noteq> n"
  by (cases e) (simp add: unpack_unsigned_def)

lemma unpack_signed_Inl:
  "unpack_signed n be data = Inl e \<longleftrightarrow> length data \<noteq> n"
  by (cases e) (simp add: unpack_signed_def)

lemma length_slice [simp]: "length (subrange i j xs) = min j (length xs) - i"
  by (simp add: subrange_def min.commute)

lemma slice_0 [simp]: "subrange 0 j xs = take j xs"
  by (simp add: subrange_def)

lemma py_palette:
  "py_mul (math_pow2 b) (PyInt 3) = PyFloat (if - 1074 \<le> b then 3 * 2 powi b else 0)"
  using palette_term [of b] by (simp add: math_pow2_def)

lemma py_add_int_float:
  "0 \<le> h \<Longrightarrow> h < 4294967296 \<Longrightarrow>
   py_add (PyInt h) (PyFloat p) = PyFloat (fl (of_int h + p))"
  using fl_of_int [of h] by simp

lemma dib_offset_fields:
  "dib_offset dib =
     and_then (spec_fields dib) (\<lambda>(h, bpp, c). Inr (region_of h bpp c))"
proof (cases "unpack_unsigned 4 False (take 4 dib)")
  case (Inl e)
  then show ?thesis
    by (simp add: dib_offset_def spec_fields_def and_then_def dword2py_int_def)
next
  case (Inr h)
  then have hb: "0 \<le> h" "h < 4294967296"
    using unpack_unsigned_Inr [of 4 False "take 4 dib" h] by simp_all
  show ?thesis
  proof (cases "h = 12")
    case True
    have "fl 12 = 12" using fl_of_int [of 12] by simp
    then show ?thesis
      using Inr True
      by (simp add: dib_offset_def spec_fields_def and_then_def dword2py_int_def
          signed_word2py_int_def py_palette region_of_def fl_of_int split: sum.splits)
  next
    case False
    show ?thesis
      using Inr False hb
      by (simp add: dib_offset_def spec_fields_def and_then_def dword2py_int_def
          signed_word2py_int_def py_palette region_of_def fl_of_int split: sum.splits)
  qed
qed

lemma spec_fields_bounds:
  "spec_fields dib = Inr (h, bpp, c) \<Longrightarrow>
   0 \<le> h \<and> h < 4294967296 \<and> 0 \<le> c \<and> c < 4294967296"
  by (auto simp: spec_fields_def and_then_def dword2py_int_def
      split: sum.splits if_splits dest: unpack_unsigned_Inr)

lemma region_nonneg:
  assumes "0 \<le> h" "0 \<le> c"
  shows "0 \<le> py_value (region_of h bpp c)"
proof (cases "bpp \<le> 8")
  case True
  have "(0::rat) \<le> of_int h + (if - 1074 \<le> bpp then 3 * 2 powi bpp else 0)"
    using assms(1) by simp
  then show ?thesis using True by (simp add: region_of_def fl_nonneg)
next
  case False
  then show ?thesis using assms by (simp add: region_of_def)
qed

lemma region_align:
  assumes h: "0 \<le> h" "h < 4294967296" and c: "0 \<le> c" "c < 4294967296"
  shows "math_ceil (py_truediv (region_of h bpp c) (PyFloat 4)) * 4 =
         round_up4 (py_value (region_of h bpp c))"
proof (cases "bpp \<le> 8")
  case False
  define m where "m = h + c * 3"
  have m: "\<bar>m\<bar> < 2 ^ 53" using h c by (simp add: m_def)
  have f: "fl (of_int m) = of_int m" using m by (rule fl_of_int)
  have "(of_int m / 4 :: rat) = of_int m * 2 powi (- 2)"
    by (simp add: power_int_minus_divide)
  moreover have "fl (of_int m * 2 powi (- 2)) = of_int m * 2 powi (- 2)"
    using m by (intro fl_representable) simp_all
  ultimately have q: "fl (of_int m / 4) = of_int m / 4" by simp
  have reg: "region_of h bpp c = PyInt m"
    using False by (simp add: region_of_def m_def)
  show ?thesis
    unfolding reg by (simp add: py_truediv_def round_up4_def f q)
next
  case True
  define p :: rat where "p = (if - 1074 \<le> bpp then 3 * 2 powi bpp else 0)"
  define y :: rat where "y = of_int h + p"
  have reg: "region_of h bpp c = PyFloat (fl y)"
    using True by (simp add: region_of_def y_def p_def)
  have p0: "0 \<le> p" by (simp add: p_def)
  have "\<lceil>fl (fl y / 4)\<rceil> = \<lceil>fl y / 4\<rceil>"
  proof (cases "h = 0")
    case False
    then have "1 \<le> h" using h(1) by simp
    then have "(1::rat) \<le> of_int h" by simp
    then have "1 \<le> y" using p0 by (simp add: y_def)
    then show ?thesis by (simp add: fl_quarter)
  next
    case h0: True
    show ?thesis
    proof (cases "- 1074 \<le> bpp")
      case False
      then have "y = 0" using h0 by (simp add: y_def p_def)
      then show ?thesis by (simp add: fl_def)
    next
      case b: True
      then have yp: "y = 3 * 2 powi bpp" using h0 by (simp add: y_def p_def)
      have "fl (of_int 3 * 2 powi bpp) = of_int 3 * 2 powi bpp"
        using b by (intro fl_representable) simp_all
      then have "fl y = y" by (simp add: yp)
      then show ?thesis using ceil_fl_quarter_small [OF b] by (simp add: yp)
    qed
  qed
  then show ?thesis by (simp add: reg py_truediv_def round_up4_def)
qed

lemma dib_to_bmp_fields:
  assumes "spec_fields dib = Inr (h, bpp, c)"
  shows "dib_to_bmp dib =
    (if 14 + round_up4 (py_value (region_of h bpp c)) < 4294967296 \<and>
        14 + int (length dib) < 4294967296
     then Inr (spec_file_header (14 + int (length dib))
                 (14 + round_up4 (py_value (region_of h bpp c))) @ dib)
     else Inl StructError)"
proof -
  have b: "0 \<le> h" "h < 4294967296" "0 \<le> c" "c < 4294967296"
    using spec_fields_bounds [OF assms] by simp_all
  have off: "dib_offset dib = Inr (region_of h bpp c)"
    using assms by (simp add: dib_offset_fields and_then_def)
  have "0 \<le> py_value (region_of h bpp c)" using b by (intro region_nonneg)
  then have "0 \<le> round_up4 (py_value (region_of h bpp c))"
    by (simp add: round_up4_def)
  then show ?thesis
    using region_align [OF b, of bpp]
    by (simp add: dib_to_bmp_def off and_then_def Let_def pack_unsigned_def
        spec_file_header_def byte_order_def)
qed

lemma dib_to_bmp_unreadable:
  "spec_fields dib = Inl e \<Longrightarrow> dib_to_bmp dib = Inl e"
  by (simp add: dib_to_bmp_def dib_offset_fields and_then_def)

lemma spec_fields_legacy_colors:
  "spec_fields dib = Inr (12, bpp, c) \<Longrightarrow> c = 0"
  by (auto simp: spec_fields_def and_then_def split: sum.splits if_splits)

lemma region_exact:
  assumes f: "spec_fields dib = Inr (h, bpp, c)" and b: "0 \<le> bpp"
  shows "py_value (region_of h bpp c) = of_int h + spec_palette_size h bpp c"
proof (cases "bpp \<le> 8")
  case False
  have "h = 12 \<Longrightarrow> c = 0" using f spec_fields_legacy_colors by blast
  then show ?thesis using False by (auto simp: region_of_def spec_palette_size_def)
next
  case True
  have hb: "0 \<le> h" "h < 4294967296" using spec_fields_bounds [OF f] by simp_all
  define m where "m = h + 3 * 2 ^ nat bpp"
  have "(2::int) ^ nat bpp \<le> 2 ^ 8"
    using True b by (intro power_increasing) simp_all
  then have m: "\<bar>m\<bar> < 2 ^ 53" using hb by (simp add: m_def)
  have pw: "(2::rat) powi bpp = 2 ^ nat bpp" using b by (simp add: power_int_def)
  have "rat_of_int m = of_int h + 3 * 2 powi bpp" by (simp add: m_def pw)
  then have "fl (of_int h + 3 * 2 powi bpp) = of_int h + 3 * 2 powi bpp"
    using fl_of_int [OF m] by simp
  then show ?thesis
    using True b by (simp add: region_of_def spec_palette_size_def)
qed

lemma dib_palette_fields:
  assumes f: "spec_fields dib = Inr (h, bpp, c)"
  shows "dib_palette dib =
           Inr (if bpp \<le> 8 then PyFloat (if - 1074 \<le> bpp then 3 * 2 powi bpp else 0)
                else PyInt (c * 3))"
proof (cases "h = 12")
  case True
  then have "c = 0" using f spec_fields_legacy_colors by blast
  then show ?thesis
    using f True
    by (auto simp: dib_palette_def spec_fields_def and_then_def dword2py_int_def
        signed_word2py_int_def py_palette split: sum.splits)
next
  case False
  then show ?thesis
    using f
    by (auto simp: dib_palette_def spec_fields_def and_then_def dword2py_int_def
        signed_word2py_int_def py_palette split: sum.splits if_splits)
qed

lemma region_of_palette:
  assumes "0 \<le> h" "h < 4294967296"
  shows "region_of h bpp c =
     py_add (PyInt h) (if bpp \<le> 8 then PyFloat (if - 1074 \<le> bpp then 3 * 2 powi bpp else 0)
                else PyInt (c * 3))"
  using assms fl_of_int [of h] by (simp add: region_of_def)

lemma spec_fields_readable:
  "isl (spec_fields dib) \<longleftrightarrow>
     length dib < 4 \<or>
     (dword2py_int (take 4 dib) False = Inr 12 \<and> length dib < 12) \<or>
     (dword2py_int (take 4 dib) False \<noteq> Inr 12 \<and> length dib < 36)"
proof (cases "length dib < 4")
  case True
  then show ?thesis
    by (simp add: spec_fields_def and_then_def dword2py_int_def unpack_unsigned_def)
next
  case False
  then have len: "length (take 4 dib) = 4" by simp
  then obtain h where h: "unpack_unsigned 4 False (take 4 dib) = Inr h"
    by (simp add: unpack_unsigned_def)
  show ?thesis
  proof (cases "h = 12")
    case True
    then show ?thesis
      using h False
      by (auto simp: spec_fields_def and_then_def dword2py_int_def signed_word2py_int_def
          unpack_signed_def)
  next
    case False
    then show ?thesis
      using h \<open>\<not> length dib < 4\<close>
      by (auto simp: spec_fields_def and_then_def dword2py_int_def signed_word2py_int_def
          unpack_signed_def unpack_unsigned_def split: if_splits)
  qed
qed

lemma le_bytes_4:
  "le_bytes 4 v = [word_of_int v, word_of_int (v div 256), word_of_int (v div 256 div 256),
     word_of_int (v div 256 div 256 div 256)]"
  by (simp add: eval_nat_numeral)

lemmas field_eval = spec_fields_def and_then_def dword2py_int_def signed_word2py_int_def
  unpack_unsigned_def unpack_signed_def subrange_def byte_order_def

lemma dib_offset_readable:
  "spec_fields dib = Inr (h, bpp, c) \<Longrightarrow> dib_offset dib = Inr (region_of h bpp c)"
  by (simp add: dib_offset_fields and_then_def)

lemma dib_offset_unreadable:
  "spec_fields dib = Inl e \<Longrightarrow> dib_offset dib = Inl e"
  by (simp add: dib_offset_fields and_then_def)

lemma dib_offset_Inr:
  assumes "dib_offset dib = Inr region"
  obtains h bpp c where "spec_fields dib = Inr (h, bpp, c)" "region = region_of h bpp c"
proof (cases "spec_fields dib")
  case (Inl e)
  with assms show ?thesis by (simp add: dib_offset_unreadable)
next
  case (Inr t)
  obtain h bpp c where "t = (h, bpp, c)" by (cases t) auto
  with Inr assms that show ?thesis by (simp add: dib_offset_readable)
qed

lemma dib_to_bmp_region:
  assumes "dib_offset dib = Inr region"
  shows "dib_to_bmp dib =
    (if 14 + round_up4 (py_value region) < 4294967296 \<and>
        14 + int (length dib) < 4294967296
     then Inr (spec_file_header (14 + int (length dib))
                 (14 + round_up4 (py_value region)) @ dib)
     else Inl StructError)"
proof -
  obtain h bpp c where f: "spec_fields dib = Inr (h, bpp, c)" "region = region_of h bpp c"
    using assms by (rule dib_offset_Inr)
  show ?thesis using dib_to_bmp_fields [OF f(1)] by (simp only: f(2))
qed

lemma region_value_nonneg:
  assumes "dib_offset dib = Inr region"
  shows "0 \<le> round_up4 (py_value region)"
proof -
  obtain h bpp c where f: "spec_fields dib = Inr (h, bpp, c)" "region = region_of h bpp c"
    using assms by (rule dib_offset_Inr)
  have "0 \<le> py_value region"
    using spec_fields_bounds [OF f(1)] by (simp add: f(2) region_nonneg)
  then show ?thesis by (simp add: round_up4_def)
qed

lemma length_spec_file_header [simp]: "length (spec_file_header fs po) = 14"
  by (simp add: spec_file_header_def)

lemma dword2py_int_le_bytes:
  "0 \<le> v \<Longrightarrow> v < 4294967296 \<Longrightarrow> dword2py_int (le_bytes 4 v) False = Inr v"
  by (simp add: dword2py_int_def unpack_unsigned_def byte_order_def le_value_le_bytes)

lemma header_file_size:
  "subrange 2 6 (spec_file_header fs po @ dib) = le_bytes 4 fs"
  by (simp add: subrange_def spec_file_header_def le_bytes_4)

lemma header_pixel_offset:
  "subrange 10 14 (spec_file_header fs po @ dib) = le_bytes 4 po"
  by (simp add: subrange_def spec_file_header_def le_bytes_4)

lemma round_up4_of_int: "round_up4 (of_int m) = (m + 3) div 4 * 4"
proof -
  have "\<lceil>rat_of_int m / rat_of_int 4\<rceil> = - (- m div 4)"
    by (rule ceiling_divide_eq_div)
  moreover have "- (- m div 4) = (m + 3) div 4" by presburger
  ultimately show ?thesis by (simp add: round_up4_def)
qed

lemma round_up4_numeral: "round_up4 (numeral n) = (numeral n + 3) div 4 * 4"
  using round_up4_of_int [of "numeral n"] by simp

lemma region_of_int:
  "8 < bpp \<Longrightarrow> py_value (region_of h bpp c) = of_int (h + c * 3)"
  by (simp add: region_of_def)

lemma fields_24bpp:
  "spec_fields [40, 0, 0, 0, 1, 0, 0, 0, 1, 0, 0, 0, 1, 0, 24, 0, 0, 0, 0, 0,
       0, 0, 0, 0, 0, 0, 0, 0, 0, 0, 0, 0, 0, 0, 0, 0, 0, 0, 0, 0] = Inr (40, 24, 0)"
  by (simp add: field_eval)

lemma fields_24bpp_max_colors:
  "spec_fields [40, 0, 0, 0, 1, 0, 0, 0, 1, 0, 0, 0, 1, 0, 24, 0, 0, 0, 0, 0,
       0, 0, 0, 0, 0, 0, 0, 0, 0, 0, 0, 0, 255, 255, 255, 255, 0, 0, 0, 0]
     = Inr (40, 24, 4294967295)"
  by (simp add: field_eval)

lemma fields_legacy_1bpp:
  "spec_fields [12, 0, 0, 0, 1, 0, 1, 0, 1, 0, 1, 0] = Inr (12, 1, 0)"
  by (simp add: field_eval)

lemma fields_legacy_underflow:
  "spec_fields [12, 0, 0, 0, 1, 0, 1, 0, 1, 0, 48, 248] = Inr (12, - 2000, 0)"
  by (simp add: field_eval)

lemma fields_legacy_absorbed:
  "spec_fields [12, 0, 0, 0, 1, 0, 1, 0, 1, 0, 196, 255, 0] = Inr (12, - 60, 0)"
  by (simp add: field_eval)

lemma fields_24bpp_one_color:
  "spec_fields [40, 0, 0, 0, 1, 0, 0, 0, 1, 0, 0, 0, 1, 0, 24, 0, 0, 0, 0, 0,
       0, 0, 0, 0, 0, 0, 0, 0, 0, 0, 0, 0, 1, 0, 0, 0, 0, 0, 0, 0] = Inr (40, 24, 1)"
  by (simp add: field_eval)

lemma fields_header_size_16:
  "spec_fields [16, 0, 0, 0, 1, 0, 0, 0, 1, 0, 0, 0, 1, 0, 24, 0, 0, 0, 0, 0,
       0, 0, 0, 0, 0, 0, 0, 0, 0, 0, 0, 0, 0, 0, 0, 0] = Inr (16, 24, 0)"
  by (simp add: field_eval)

lemma fl_absorbs: "fl (12 + 3 * 2 powi (- 60)) = 12"
  by code_simp

lemma fl_18: "fl 18 = 18"
  using fl_of_int [of 18] by simp

lemma round_up4_0: "round_up4 0 = 0"
  by (simp add: round_up4_def)

section \<open>Claims on the primitive codec and the RIFF chunk size\<close>

text \<open>
  C9. For every integer \<open>v\<close> in the range of the target width and signedness (8-bit
  unsigned, 16-bit signed or unsigned, 32-bit signed or unsigned) and for both byte orders,
  decoding the encoding of \<open>v\<close> with the same byte order returns \<open>v\<close>: neither call
  raises, and each encode/decode pair is an exact inverse.
\<close>

theorem codec_roundtrip:
  "(0 \<le> v \<and> v < 256 \<longrightarrow> and_then (py_int2byte v) byte2py_int = Inr v) \<and>
   (0 \<le> v \<and> v < 65536 \<longrightarrow>
      and_then (py_int2word v be) (\<lambda>data. word2py_int data be) = Inr v) \<and>
   (- 32768 \<le> v \<and> v < 32768 \<longrightarrow>
      and_then (py_int2signed_word v be) (\<lambda>data. signed_word2py_int data be) = Inr v) \<and>
   (0 \<le> v \<and> v < 4294967296 \<longrightarrow>
      and_then (py_int2dword v be) (\<lambda>data. dword2py_int data be) = Inr v) \<and>
   (- 2147483648 \<le> v \<and> v < 2147483648 \<longrightarrow>
      and_then (py_int2signed_dword v be) (\<lambda>data. signed_dword2py_int data be) = Inr v)"
proof -
  have b: "0 \<le> v \<and> v < 256 \<longrightarrow> and_then (py_int2byte v) byte2py_int = Inr v"
    using unpack_pack_unsigned [of v 1 False]
    by (auto simp: py_int2byte_def byte2py_int_def and_then_def split: sum.splits)
  have w: "0 \<le> v \<and> v < 65536 \<longrightarrow>
      and_then (py_int2word v be) (\<lambda>data. word2py_int data be) = Inr v"
    using unpack_pack_unsigned [of v 2 be]
    by (simp add: py_int2word_def word2py_int_def)
  have sw: "- 32768 \<le> v \<and> v < 32768 \<longrightarrow>
      and_then (py_int2signed_word v be) (\<lambda>data. signed_word2py_int data be) = Inr v"
    using unpack_pack_signed [of 2 v be]
    by (simp add: py_int2signed_word_def signed_word2py_int_def)
  have d: "0 \<le> v \<and> v < 4294967296 \<longrightarrow>
      and_then (py_int2dword v be) (\<lambda>data. dword2py_int data be) = Inr v"
    using unpack_pack_unsigned [of v 4 be]
    by (simp add: py_int2dword_def dword2py_int_def)
  have sd: "- 2147483648 \<le> v \<and> v < 2147483648 \<longrightarrow>
      and_then (py_int2signed_dword v be) (\<lambda>data. signed_dword2py_int data be) = Inr v"
    using unpack_pack_signed [of 4 v be]
    by (simp add: py_int2signed_dword_def signed_dword2py_int_def)
  from b w sw d sd show ?thesis by blast
qed

theorem codec_roundtrip_witness:
  "and_then (py_int2byte 200) byte2py_int = Inr 200 \<and>
   and_then (py_int2word 51966 True) (\<lambda>data. word2py_int data True) = Inr 51966 \<and>
   and_then (py_int2signed_word (- 2) False) (\<lambda>data. signed_word2py_int data False)
     = Inr (- 2) \<and>
   and_then (py_int2dword 4294967295 False) (\<lambda>data. dword2py_int data False)
     = Inr 4294967295 \<and>
   and_then (py_int2signed_dword (- 2147483648) True)
     (\<lambda>data. signed_dword2py_int data True) = Inr (- 2147483648)"
  using codec_roundtrip [of 200 True] codec_roundtrip [of 51966 True]
    codec_roundtrip [of "- 2" False] codec_roundtrip [of 4294967295 False]
    codec_roundtrip [of "- 2147483648" True]
  by simp

text \<open>
  C8. \<open>get_chunk_size\<close> decodes its 4-byte input as a little-endian unsigned 32-bit
  integer and applies the RIFF even-padding rule. On every 4-byte field it returns a value:
  the decoded size if that is even, the decoded size plus one if it is odd; the result is
  even, non-negative and at least the decoded size. Through the encoder: for every
  \<open>n \<ge> 0\<close> whose \<open>2n + 1\<close> fits 32 bits, the field encoding \<open>2n\<close> yields
  \<open>2n\<close> and the field encoding \<open>2n + 1\<close> yields \<open>2n + 2\<close>.
\<close>

theorem get_chunk_size_padding:
  "(length size_field = 4 \<longrightarrow>
      (case dword2py_int size_field False of
         Inl e \<Rightarrow> False
       | Inr raw \<Rightarrow>
           (case get_chunk_size size_field of
              Inl e \<Rightarrow> False
            | Inr r \<Rightarrow> r = (if even raw then raw else raw + 1) \<and>
                       even r \<and> 0 \<le> r \<and> raw \<le> r))) \<and>
   (0 \<le> n \<and> 2 * n + 1 < 4294967296 \<longrightarrow>
      and_then (py_int2dword (2 * n) False) get_chunk_size = Inr (2 * n) \<and>
      and_then (py_int2dword (2 * n + 1) False) get_chunk_size = Inr (2 * n + 2))"
proof -
  have dec: "length size_field = 4 \<longrightarrow>
      (case dword2py_int size_field False of
         Inl e \<Rightarrow> False
       | Inr raw \<Rightarrow>
           (case get_chunk_size size_field of
              Inl e \<Rightarrow> False
            | Inr r \<Rightarrow> r = (if even raw then raw else raw + 1) \<and>
                       even r \<and> 0 \<le> r \<and> raw \<le> r))"
  proof
    assume len: "length size_field = 4"
    define raw where "raw = le_value size_field"
    have raw: "dword2py_int size_field False = Inr raw" "0 \<le> raw"
      using dword2py_int_total [OF len] by (simp_all add: raw_def)
    have pad: "even (if raw mod 2 = 0 then raw else raw + 1)"
      "raw \<le> (if raw mod 2 = 0 then raw else raw + 1)"
      "(if raw mod 2 = 0 then raw else raw + 1) = (if even raw then raw else raw + 1)"
      by presburger+
    show "case dword2py_int size_field False of
         Inl e \<Rightarrow> False
       | Inr raw \<Rightarrow>
           (case get_chunk_size size_field of
              Inl e \<Rightarrow> False
            | Inr r \<Rightarrow> r = (if even raw then raw else raw + 1) \<and>
                       even r \<and> 0 \<le> r \<and> raw \<le> r)"
      using raw pad by (simp add: get_chunk_size_def and_then_def)
  qed
  have enc: "and_then (py_int2dword k False) get_chunk_size =
      Inr (if k mod 2 = 0 then k else k + 1)" if "0 \<le> k" "k < 4294967296" for k
    using that
    by (simp add: and_then_def get_chunk_size_def py_int2dword_def dword2py_int_def
        pack_unsigned_def unpack_unsigned_def byte_order_def le_value_le_bytes)
  have "0 \<le> n \<and> 2 * n + 1 < 4294967296 \<longrightarrow>
      and_then (py_int2dword (2 * n) False) get_chunk_size = Inr (2 * n) \<and>
      and_then (py_int2dword (2 * n + 1) False) get_chunk_size = Inr (2 * n + 2)"
    using enc [of "2 * n"] enc [of "2 * n + 1"] by auto
  with dec show ?thesis by blast
qed

theorem get_chunk_size_padding_witness:
  "length [7, 1, 0, 0 :: byte] = 4 \<and>
   dword2py_int [7, 1, 0, 0] False = Inr 263 \<and>
   get_chunk_size [7, 1, 0, 0] = Inr 264 \<and>
   and_then (py_int2dword (2 * 2147483647) False) get_chunk_size = Inr 4294967294 \<and>
   and_then (py_int2dword (2 * 2147483647 + 1) False) get_chunk_size = Inr 4294967296"
  using get_chunk_size_padding [of "[7, 1, 0, 0]" 2147483647]
  by (simp add: dword2py_int_def unpack_unsigned_def byte_order_def get_chunk_size_def
      and_then_def)

section \<open>Claims on \<open>bmp_to_dib\<close>\<close>

text \<open>
  C10. \<open>bmp_to_dib\<close> raises no error on any byte string, and for every byte string
  \<open>bmp\<close> of at most 14 bytes it returns the empty byte string.
\<close>

theorem bmp_to_dib_short:
  "\<not> isl (bmp_to_dib bmp) \<and> (length bmp \<le> 14 \<longrightarrow> bmp_to_dib bmp = Inr [])"
  by (simp add: bmp_to_dib_def)

theorem bmp_to_dib_short_witness:
  "\<not> isl (bmp_to_dib [66, 77, 0]) \<and> length [66, 77, 0 :: byte] \<le> 14 \<and>
   bmp_to_dib [66, 77, 0] = Inr []"
  using bmp_to_dib_short [of "[66, 77, 0]"] by simp

text \<open>
  C5 as stated requires \<open>len(bmp) \<ge> 14\<close> and an error otherwise. The code has no such
  check: on the two-byte input \<open>BM\<close> it returns the empty byte string.
\<close>

theorem bmp_to_dib_no_length_error:
  "length [66, 77 :: byte] < 14 \<and> bmp_to_dib [66, 77] = Inr []"
  by (simp add: bmp_to_dib_def)

text \<open>
  C5, amended. \<open>bmp_to_dib\<close> has no length precondition and no error: for every byte
  string it returns the bytes of \<open>bmp\<close> from offset 14 to the end, that is
  \<open>len(bmp) - 14\<close> bytes (none when \<open>len(bmp) \<le> 14\<close>), byte \<open>i\<close> of the result
  being byte \<open>14 + i\<close> of the input; no other check is made on the input.
\<close>

theorem bmp_to_dib_slice:
  "(case bmp_to_dib bmp of
      Inl e \<Rightarrow> False
    | Inr dib \<Rightarrow> length dib = length bmp - 14 \<and>
                 (\<forall>i<length dib. dib ! i = bmp ! (14 + i)))"
  by (simp add: bmp_to_dib_def)

theorem bmp_to_dib_slice_witness:
  "(case bmp_to_dib [1, 2, 3, 4, 5, 6, 7, 8, 9, 10, 11, 12, 13, 14, 15, 16 :: byte] of
      Inl e \<Rightarrow> False
    | Inr dib \<Rightarrow> length dib = 2 \<and> dib ! 0 = 15 \<and> dib ! 1 = 16)"
  using bmp_to_dib_slice [of "[1, 2, 3, 4, 5, 6, 7, 8, 9, 10, 11, 12, 13, 14, 15, 16]"]
  by (simp add: bmp_to_dib_def)

section \<open>Claims on \<open>dib_to_bmp\<close>\<close>

text \<open>
  C1 as stated promises the round trip for every DIB of either layout that is long enough
  for its fields. A 40-byte modern header with 24 bits per pixel and
  \<open>colors_used = 0xFFFFFFFF\<close> is such a DIB, and \<open>dib_to_bmp\<close> raises on it:
  the pixel offset \<open>14 + 12884901928\<close> does not fit the unsigned 32-bit field.
\<close>

theorem roundtrip_raises_on_large_colors_used:
  "spec_fields [40, 0, 0, 0, 1, 0, 0, 0, 1, 0, 0, 0, 1, 0, 24, 0, 0, 0, 0, 0,
       0, 0, 0, 0, 0, 0, 0, 0, 0, 0, 0, 0, 255, 255, 255, 255, 0, 0, 0, 0]
     = Inr (40, 24, 4294967295) \<and>
   and_then
     (dib_to_bmp [40, 0, 0, 0, 1, 0, 0, 0, 1, 0, 0, 0, 1, 0, 24, 0, 0, 0, 0, 0,
       0, 0, 0, 0, 0, 0, 0, 0, 0, 0, 0, 0, 255, 255, 255, 255, 0, 0, 0, 0])
     bmp_to_dib = Inl StructError"
  using dib_to_bmp_fields [OF fields_24bpp_max_colors] fields_24bpp_max_colors
  by (simp add: region_of_int round_up4_numeral and_then_def)

text \<open>
  C1, amended. For every DIB \<open>d\<close> whose header fields can be read, so that
  \<open>dib_to_bmp\<close> reaches the alignment with a header-region size \<open>region\<close>: when
  the pixel offset, 14 plus \<open>region\<close> rounded up to a multiple of 4, and the file size
  \<open>14 + len(d)\<close> are both below \<open>2 ^ 32\<close>, \<open>bmp_to_dib(dib_to_bmp(d))\<close> is
  \<open>d\<close>; otherwise \<open>dib_to_bmp\<close> raises \<open>struct.error\<close> and there is no round
  trip. Whenever \<open>dib_to_bmp\<close> returns, its result is 14 bytes followed by \<open>d\<close>
  unchanged, and \<open>bmp_to_dib\<close> strips exactly those 14 bytes.
\<close>

theorem bmp_to_dib_dib_to_bmp:
  assumes "dib_offset d = Inr region"
  shows "and_then (dib_to_bmp d) bmp_to_dib =
           (if 14 + round_up4 (py_value region) < 4294967296 \<and>
               14 + int (length d) < 4294967296
            then Inr d else Inl StructError) \<and>
         (dib_to_bmp d = Inr bmp \<longrightarrow>
            length bmp = 14 + length d \<and> drop 14 bmp = d \<and> bmp_to_dib bmp = Inr d)"
  using dib_to_bmp_region [OF assms]
  by (auto simp: and_then_def bmp_to_dib_def split: if_splits)

theorem bmp_to_dib_dib_to_bmp_witness:
  "dib_offset [40, 0, 0, 0, 1, 0, 0, 0, 1, 0, 0, 0, 1, 0, 24, 0, 0, 0, 0, 0,
       0, 0, 0, 0, 0, 0, 0, 0, 0, 0, 0, 0, 0, 0, 0, 0, 0, 0, 0, 0] = Inr (PyInt 40) \<and>
   and_then
     (dib_to_bmp [40, 0, 0, 0, 1, 0, 0, 0, 1, 0, 0, 0, 1, 0, 24, 0, 0, 0, 0, 0,
       0, 0, 0, 0, 0, 0, 0, 0, 0, 0, 0, 0, 0, 0, 0, 0, 0, 0, 0, 0])
     bmp_to_dib =
   Inr [40, 0, 0, 0, 1, 0, 0, 0, 1, 0, 0, 0, 1, 0, 24, 0, 0, 0, 0, 0,
       0, 0, 0, 0, 0, 0, 0, 0, 0, 0, 0, 0, 0, 0, 0, 0, 0, 0, 0, 0] \<and>
   dib_to_bmp [40, 0, 0, 0, 1, 0, 0, 0, 1, 0, 0, 0, 1, 0, 24, 0, 0, 0, 0, 0,
       0, 0, 0, 0, 0, 0, 0, 0, 0, 0, 0, 0, 0, 0, 0, 0, 0, 0, 0, 0] =
     Inr [66, 77, 54, 0, 0, 0, 0, 0, 0, 0, 54, 0, 0, 0,
       40, 0, 0, 0, 1, 0, 0, 0, 1, 0, 0, 0, 1, 0, 24, 0, 0, 0, 0, 0,
       0, 0, 0, 0, 0, 0, 0, 0, 0, 0, 0, 0, 0, 0, 0, 0, 0, 0, 0, 0] \<and>
   bmp_to_dib [66, 77, 54, 0, 0, 0, 0, 0, 0, 0, 54, 0, 0, 0,
       40, 0, 0, 0, 1, 0, 0, 0, 1, 0, 0, 0, 1, 0, 24, 0, 0, 0, 0, 0,
       0, 0, 0, 0, 0, 0, 0, 0, 0, 0, 0, 0, 0, 0, 0, 0, 0, 0, 0, 0] =
     Inr [40, 0, 0, 0, 1, 0, 0, 0, 1, 0, 0, 0, 1, 0, 24, 0, 0, 0, 0, 0,
       0, 0, 0, 0, 0, 0, 0, 0, 0, 0, 0, 0, 0, 0, 0, 0, 0, 0, 0, 0]"
proof -
  have off: "dib_offset [40, 0, 0, 0, 1, 0, 0, 0, 1, 0, 0, 0, 1, 0, 24, 0, 0, 0, 0, 0,
       0, 0, 0, 0, 0, 0, 0, 0, 0, 0, 0, 0, 0, 0, 0, 0, 0, 0, 0, 0] = Inr (PyInt 40)"
    using dib_offset_readable [OF fields_24bpp] by (simp add: region_of_def)
  have out: "dib_to_bmp [40, 0, 0, 0, 1, 0, 0, 0, 1, 0, 0, 0, 1, 0, 24, 0, 0, 0, 0, 0,
       0, 0, 0, 0, 0, 0, 0, 0, 0, 0, 0, 0, 0, 0, 0, 0, 0, 0, 0, 0] =
     Inr [66, 77, 54, 0, 0, 0, 0, 0, 0, 0, 54, 0, 0, 0,
       40, 0, 0, 0, 1, 0, 0, 0, 1, 0, 0, 0, 1, 0, 24, 0, 0, 0, 0, 0,
       0, 0, 0, 0, 0, 0, 0, 0, 0, 0, 0, 0, 0, 0, 0, 0, 0, 0, 0, 0]"
    using dib_to_bmp_region [OF off]
    by (simp add: round_up4_numeral spec_file_header_def le_bytes_4)
  have "round_up4 (py_value (PyInt 40)) = 40"
    by (simp add: round_up4_numeral)
  then show ?thesis
    using off out bmp_to_dib_dib_to_bmp [OF off, of "[66, 77, 54, 0, 0, 0, 0, 0, 0, 0, 54, 0, 0, 0,
       40, 0, 0, 0, 1, 0, 0, 0, 1, 0, 0, 0, 1, 0, 24, 0, 0, 0, 0, 0,
       0, 0, 0, 0, 0, 0, 0, 0, 0, 0, 0, 0, 0, 0, 0, 0, 0, 0, 0, 0]"]
    by simp
qed

text \<open>
  C2 as stated gives the palette size \<open>2 ^ bits_per_pixel * 3\<close> for every
  \<open>bits_per_pixel \<le> 8\<close>. The field is a signed 16-bit value and the code computes
  the power with \<open>math.pow\<close>, in floating point: for \<open>bits_per_pixel = -2000\<close>
  the power underflows to \<open>0.0\<close> and the palette size of the code is 0, which
  \<open>2 ^ -2000 * 3\<close> is not.
\<close>

theorem palette_underflow:
  "spec_fields [12, 0, 0, 0, 1, 0, 1, 0, 1, 0, 48, 248] = Inr (12, - 2000, 0) \<and>
   dib_palette [12, 0, 0, 0, 1, 0, 1, 0, 1, 0, 48, 248] = Inr (PyFloat 0) \<and>
   spec_palette_size 12 (- 2000) 0 \<noteq> 0"
  using dib_palette_fields [OF fields_legacy_underflow] fields_legacy_underflow
  by (simp add: spec_palette_size_def)

text \<open>
  C2, amended. \<open>dib_to_bmp\<close> reads \<open>header_size\<close> as the little-endian unsigned
  32-bit value of the first four bytes. When it is 12, \<open>bits_per_pixel\<close> is the signed
  16-bit little-endian value at offset 10 and the palette size is
  \<open>2 ^ bits_per_pixel * 3\<close> if \<open>-1074 \<le> bits_per_pixel \<le> 8\<close>, and 0 if
  \<open>bits_per_pixel > 8\<close>. When it is not 12, \<open>bits_per_pixel\<close> is read at offset 14
  and \<open>colors_used\<close> as unsigned 32-bit little-endian at offset 32, and the palette
  size is \<open>colors_used * 3\<close> if \<open>bits_per_pixel > 8\<close> and
  \<open>2 ^ bits_per_pixel * 3\<close> if \<open>-1074 \<le> bits_per_pixel \<le> 8\<close>. In both layouts
  the palette size is 0 for \<open>bits_per_pixel < -1074\<close>, where the power underflows.
  The value of \<open>offset\<close> before the alignment is the header size plus this palette
  size, in Python arithmetic.
\<close>

theorem dib_palette_size:
  assumes "spec_fields dib = Inr (header_size, bits_per_pixel, colors_used)"
  shows "(case dib_palette dib of
            Inl e \<Rightarrow> False
          | Inr palette \<Rightarrow>
              py_value palette =
                (if bits_per_pixel < - 1074 then 0
                 else spec_palette_size header_size bits_per_pixel colors_used) \<and>
              dib_offset dib = Inr (py_add (PyInt header_size) palette))"
proof -
  have b: "0 \<le> header_size" "header_size < 4294967296"
    using spec_fields_bounds [OF assms] by simp_all
  have c: "header_size = 12 \<Longrightarrow> colors_used = 0"
    using assms spec_fields_legacy_colors by blast
  have "dib_offset dib =
          Inr (py_add (PyInt header_size)
            (if bits_per_pixel \<le> 8
             then PyFloat (if - 1074 \<le> bits_per_pixel then 3 * 2 powi bits_per_pixel else 0)
             else PyInt (colors_used * 3)))"
    using dib_offset_readable [OF assms] region_of_palette [OF b] by simp
  then show ?thesis
    using c by (auto simp: dib_palette_fields [OF assms] spec_palette_size_def)
qed

theorem dib_palette_size_witness:
  "spec_fields [12, 0, 0, 0, 1, 0, 1, 0, 1, 0, 1, 0] = Inr (12, 1, 0) \<and>
   (case dib_palette [12, 0, 0, 0, 1, 0, 1, 0, 1, 0, 1, 0] of
      Inl e \<Rightarrow> False
    | Inr palette \<Rightarrow>
        py_value palette = 6 \<and>
        dib_offset [12, 0, 0, 0, 1, 0, 1, 0, 1, 0, 1, 0] = Inr (py_add (PyInt 12) palette))"
  using dib_palette_size [OF fields_legacy_1bpp] fields_legacy_1bpp
  by (auto simp: spec_palette_size_def split: sum.splits)

text \<open>
  C3 as stated rounds the exact sum \<open>header_size + palette_size_bytes\<close> up to the next
  multiple of 4. The code adds a float palette size to the header size in double
  precision: for the legacy header with \<open>bits_per_pixel = -60\<close> the palette size
  \<open>3 * 2 ^ -60\<close> is absorbed, \<open>12 + 3 * 2 ^ -60\<close> is \<open>12.0\<close>, and the emitted
  pixel offset is 26, where the exact sum rounded up gives 30.
\<close>

theorem header_region_absorbed:
  "spec_fields [12, 0, 0, 0, 1, 0, 1, 0, 1, 0, 196, 255, 0] = Inr (12, - 60, 0) \<and>
   dib_to_bmp [12, 0, 0, 0, 1, 0, 1, 0, 1, 0, 196, 255, 0] =
     Inr ([66, 77] @ [27, 0, 0, 0] @ [0, 0, 0, 0] @ [26, 0, 0, 0] @
          [12, 0, 0, 0, 1, 0, 1, 0, 1, 0, 196, 255, 0]) \<and>
   14 + round_up4 (12 + spec_palette_size 12 (- 60) 0) = 30"
  using dib_to_bmp_fields [OF fields_legacy_absorbed] fields_legacy_absorbed fl_absorbs
  by (simp add: region_of_def round_up4_def spec_file_header_def le_bytes_4
      spec_palette_size_def ceiling_eq_iff)

text \<open>
  C3, amended. For every DIB whose header fields can be read, \<open>dib_to_bmp\<close> rounds the
  header-region size it has computed up to the next multiple of 4; that size is exactly
  \<open>header_size + palette_size_bytes\<close> whenever \<open>bits_per_pixel \<ge> 0\<close> (for a
  negative \<open>bits_per_pixel\<close> it is the sum in double precision). The pixel offset is
  14 plus the rounded size. When the pixel offset and \<open>14 + len(dib)\<close> are both below
  \<open>2 ^ 32\<close> it emits exactly the magic \<open>BM\<close>, \<open>14 + len(dib)\<close> as little-endian
  unsigned 32-bit, four zero bytes, the pixel offset as little-endian unsigned 32-bit and
  the unmodified bytes of \<open>dib\<close>, in that order; otherwise it raises
  \<open>struct.error\<close>.
\<close>

theorem dib_to_bmp_layout:
  assumes "spec_fields dib = Inr (header_size, bits_per_pixel, colors_used)"
  shows "(case dib_offset dib of
            Inl e \<Rightarrow> False
          | Inr region \<Rightarrow>
              (0 \<le> bits_per_pixel \<longrightarrow>
                 py_value region =
                   of_int header_size +
                   spec_palette_size header_size bits_per_pixel colors_used) \<and>
              dib_to_bmp dib =
                (if 14 + round_up4 (py_value region) < 4294967296 \<and>
                    14 + int (length dib) < 4294967296
                 then Inr ([66, 77] @ le_bytes 4 (14 + int (length dib)) @ [0, 0, 0, 0] @
                           le_bytes 4 (14 + round_up4 (py_value region)) @ dib)
                 else Inl StructError))"
  using dib_to_bmp_fields [OF assms] region_exact [OF assms]
  by (simp add: dib_offset_readable [OF assms] spec_file_header_def)

theorem dib_to_bmp_layout_witness:
  "spec_fields [12, 0, 0, 0, 1, 0, 1, 0, 1, 0, 1, 0] = Inr (12, 1, 0) \<and>
   dib_offset [12, 0, 0, 0, 1, 0, 1, 0, 1, 0, 1, 0] = Inr (PyFloat 18) \<and>
   dib_to_bmp [12, 0, 0, 0, 1, 0, 1, 0, 1, 0, 1, 0] =
     Inr ([66, 77] @ [26, 0, 0, 0] @ [0, 0, 0, 0] @ [34, 0, 0, 0] @
          [12, 0, 0, 0, 1, 0, 1, 0, 1, 0, 1, 0])"
proof -
  have off: "dib_offset [12, 0, 0, 0, 1, 0, 1, 0, 1, 0, 1, 0] = Inr (PyFloat 18)"
    using dib_offset_readable [OF fields_legacy_1bpp] fl_18 by (simp add: region_of_def)
  show ?thesis
    using dib_to_bmp_layout [OF fields_legacy_1bpp] fields_legacy_1bpp
    by (simp add: off round_up4_numeral le_bytes_4)
qed

text \<open>
  C4 as stated rejects every header size other than 12 and below 40. The code has one
  test, \<open>dib_header_size == 12\<close>, and treats every other value as the modern layout:
  a 36-byte DIB with \<open>header_size = 16\<close> is converted without error.
\<close>

theorem unrecognized_header_size_accepted:
  "dword2py_int (take 4 [16, 0, 0, 0, 1, 0, 0, 0, 1, 0, 0, 0, 1, 0, 24, 0, 0, 0, 0, 0,
       0, 0, 0, 0, 0, 0, 0, 0, 0, 0, 0, 0, 0, 0, 0, 0]) False = Inr 16 \<and>
   dib_to_bmp [16, 0, 0, 0, 1, 0, 0, 0, 1, 0, 0, 0, 1, 0, 24, 0, 0, 0, 0, 0,
       0, 0, 0, 0, 0, 0, 0, 0, 0, 0, 0, 0, 0, 0, 0, 0] =
     Inr ([66, 77] @ [50, 0, 0, 0] @ [0, 0, 0, 0] @ [30, 0, 0, 0] @
       [16, 0, 0, 0, 1, 0, 0, 0, 1, 0, 0, 0, 1, 0, 24, 0, 0, 0, 0, 0,
        0, 0, 0, 0, 0, 0, 0, 0, 0, 0, 0, 0, 0, 0, 0, 0])"
  using dib_to_bmp_fields [OF fields_header_size_16]
  by (simp add: region_of_int round_up4_numeral spec_file_header_def le_bytes_4
      dword2py_int_def unpack_unsigned_def byte_order_def)

text \<open>
  C4, amended. The header reads of \<open>dib_to_bmp\<close> fail exactly when \<open>dib\<close> is
  shorter than 4 bytes, or \<open>header_size\<close> is 12 and \<open>dib\<close> is shorter than 12
  bytes, or \<open>header_size\<close> is not 12 and \<open>dib\<close> is shorter than 36 bytes; then
  \<open>dib_to_bmp\<close> raises \<open>struct.error\<close> (the only error of the module) and
  produces no output. A header size that is neither 12 nor at least 40 is not rejected:
  it is handled as the modern layout. When the reads succeed, \<open>dib_to_bmp\<close> raises
  \<open>struct.error\<close> exactly when the pixel offset or \<open>14 + len(dib)\<close> does not fit
  32 bits. The reads are slices, which never read out of bounds.
\<close>

theorem dib_to_bmp_errors:
  "(isl (dib_offset dib) \<longleftrightarrow>
      length dib < 4 \<or>
      (dword2py_int (take 4 dib) False = Inr 12 \<and> length dib < 12) \<or>
      (dword2py_int (take 4 dib) False \<noteq> Inr 12 \<and> length dib < 36)) \<and>
   (isl (dib_offset dib) \<longrightarrow> dib_to_bmp dib = Inl StructError) \<and>
   (dib_offset dib = Inr region \<longrightarrow>
      (dib_to_bmp dib = Inl StructError \<longleftrightarrow>
         4294967296 \<le> 14 + round_up4 (py_value region) \<or>
         4294967296 \<le> 14 + int (length dib)))"
proof -
  have "isl (dib_offset dib) \<longleftrightarrow> isl (spec_fields dib)"
    by (cases "spec_fields dib") (auto simp: dib_offset_fields and_then_def)
  then have a: "isl (dib_offset dib) \<longleftrightarrow>
      length dib < 4 \<or>
      (dword2py_int (take 4 dib) False = Inr 12 \<and> length dib < 12) \<or>
      (dword2py_int (take 4 dib) False \<noteq> Inr 12 \<and> length dib < 36)"
    by (simp only: spec_fields_readable)
  have b: "isl (dib_offset dib) \<longrightarrow> dib_to_bmp dib = Inl StructError"
  proof
    assume "isl (dib_offset dib)"
    then obtain e where "dib_offset dib = Inl e" by (cases "dib_offset dib") auto
    then have "dib_to_bmp dib = Inl e" by (simp add: dib_to_bmp_def and_then_def)
    then show "dib_to_bmp dib = Inl StructError" by (cases e) simp
  qed
  have c: "dib_offset dib = Inr region \<longrightarrow>
      (dib_to_bmp dib = Inl StructError \<longleftrightarrow>
         4294967296 \<le> 14 + round_up4 (py_value region) \<or>
         4294967296 \<le> 14 + int (length dib))"
  proof
    assume off: "dib_offset dib = Inr region"
    show "dib_to_bmp dib = Inl StructError \<longleftrightarrow>
         4294967296 \<le> 14 + round_up4 (py_value region) \<or>
         4294967296 \<le> 14 + int (length dib)"
      using dib_to_bmp_region [OF off] by auto
  qed
  from a b c show ?thesis by blast
qed

theorem dib_to_bmp_errors_witness:
  "isl (dib_offset [12, 0, 0, 0, 1, 0, 1, 0, 1, 0, 1]) \<and>
   dib_to_bmp [12, 0, 0, 0, 1, 0, 1, 0, 1, 0, 1] = Inl StructError \<and>
   dib_offset [40, 0, 0, 0, 1, 0, 0, 0, 1, 0, 0, 0, 1, 0, 24, 0, 0, 0, 0, 0,
       0, 0, 0, 0, 0, 0, 0, 0, 0, 0, 0, 0, 255, 255, 255, 255, 0, 0, 0, 0]
     = Inr (PyInt 12884901925) \<and>
   dib_to_bmp [40, 0, 0, 0, 1, 0, 0, 0, 1, 0, 0, 0, 1, 0, 24, 0, 0, 0, 0, 0,
       0, 0, 0, 0, 0, 0, 0, 0, 0, 0, 0, 0, 255, 255, 255, 255, 0, 0, 0, 0]
     = Inl StructError"
proof -
  have off: "dib_offset [40, 0, 0, 0, 1, 0, 0, 0, 1, 0, 0, 0, 1, 0, 24, 0, 0, 0, 0, 0,
       0, 0, 0, 0, 0, 0, 0, 0, 0, 0, 0, 0, 255, 255, 255, 255, 0, 0, 0, 0]
     = Inr (PyInt 12884901925)"
    using dib_offset_readable [OF fields_24bpp_max_colors] by (simp add: region_of_def)
  have short: "dword2py_int (take 4 [12, 0, 0, 0, 1, 0, 1, 0, 1, 0, 1 :: byte]) False = Inr 12"
    by (simp add: dword2py_int_def unpack_unsigned_def byte_order_def)
  show ?thesis
    using off short dib_to_bmp_errors [of "[12, 0, 0, 0, 1, 0, 1, 0, 1, 0, 1]"]
      dib_to_bmp_errors [of "[40, 0, 0, 0, 1, 0, 0, 0, 1, 0, 0, 0, 1, 0, 24, 0, 0, 0, 0, 0,
       0, 0, 0, 0, 0, 0, 0, 0, 0, 0, 0, 0, 255, 255, 255, 255, 0, 0, 0, 0]"
       "PyInt 12884901925"]
    by (simp add: round_up4_numeral)
qed

text \<open>
  C6 as stated gives the pixel offset as 14 plus the palette size, rounded up to a 4-byte
  boundary, without the header size. For a 40-byte modern header with 24 bits per pixel
  and no palette the stored pixel offset is 54; the palette size is 0, and neither
  \<open>14 + 0\<close> rounded up (16) nor 14 plus 0 rounded up (14) is 54.
\<close>

theorem pixel_offset_includes_header_size:
  "spec_fields [40, 0, 0, 0, 1, 0, 0, 0, 1, 0, 0, 0, 1, 0, 24, 0, 0, 0, 0, 0,
       0, 0, 0, 0, 0, 0, 0, 0, 0, 0, 0, 0, 0, 0, 0, 0, 0, 0, 0, 0] = Inr (40, 24, 0) \<and>
   and_then
     (dib_to_bmp [40, 0, 0, 0, 1, 0, 0, 0, 1, 0, 0, 0, 1, 0, 24, 0, 0, 0, 0, 0,
       0, 0, 0, 0, 0, 0, 0, 0, 0, 0, 0, 0, 0, 0, 0, 0, 0, 0, 0, 0])
     (\<lambda>bmp. dword2py_int (subrange 10 14 bmp) False) = Inr 54 \<and>
   14 + round_up4 (spec_palette_size 40 24 0) = 14 \<and>
   round_up4 (14 + spec_palette_size 40 24 0) = 16"
  using dib_to_bmp_fields [OF fields_24bpp] fields_24bpp
  by (simp add: region_of_int round_up4_numeral spec_file_header_def le_bytes_4
      and_then_def dword2py_int_def unpack_unsigned_def subrange_def byte_order_def
      spec_palette_size_def round_up4_0)

text \<open>
  C6, amended. Every BMP container produced by \<open>dib_to_bmp\<close> stores in its
  \<open>file_size\<close> field (bytes 2 to 5) the value \<open>14 + len(dib)\<close> and in its
  \<open>pixel_offset\<close> field (bytes 10 to 13) the value 14 plus the header-region size
  rounded up to a 4-byte boundary, the header-region size being the value of
  \<open>offset\<close> before the alignment: \<open>header_size + palette_size_bytes\<close>, exactly
  so whenever \<open>bits_per_pixel \<ge> 0\<close>.
\<close>

theorem bmp_container_invariants:
  assumes "dib_to_bmp dib = Inr bmp"
  shows "dword2py_int (subrange 2 6 bmp) False = Inr (14 + int (length dib)) \<and>
         (case dib_offset dib of
            Inl e \<Rightarrow> False
          | Inr region \<Rightarrow>
              dword2py_int (subrange 10 14 bmp) False =
                Inr (14 + round_up4 (py_value region))) \<and>
         (spec_fields dib = Inr (header_size, bits_per_pixel, colors_used) \<and>
          0 \<le> bits_per_pixel \<longrightarrow>
            dword2py_int (subrange 10 14 bmp) False =
              Inr (14 + round_up4 (of_int header_size +
                     spec_palette_size header_size bits_per_pixel colors_used)))"
proof -
  obtain region where off: "dib_offset dib = Inr region"
    using assms by (cases "dib_offset dib") (simp_all add: dib_to_bmp_def and_then_def)
  define po where "po = 14 + round_up4 (py_value region)"
  define fs where "fs = 14 + int (length dib)"
  have r: "0 \<le> po" "0 \<le> fs"
    using region_value_nonneg [OF off] by (simp_all add: po_def fs_def)
  have "dib_to_bmp dib =
      (if po < 4294967296 \<and> fs < 4294967296
       then Inr (spec_file_header fs po @ dib) else Inl StructError)"
    using dib_to_bmp_region [OF off] by (simp only: po_def fs_def)
  with assms have ok: "po < 4294967296" "fs < 4294967296"
      and bmp: "bmp = spec_file_header fs po @ dib"
    by (auto split: if_splits)
  have size: "dword2py_int (subrange 2 6 bmp) False = Inr fs"
    using r ok by (simp only: bmp header_file_size dword2py_int_le_bytes)
  have pix: "dword2py_int (subrange 10 14 bmp) False = Inr po"
    using r ok by (simp only: bmp header_pixel_offset dword2py_int_le_bytes)
  have exact: "po = 14 + round_up4 (of_int header_size +
                     spec_palette_size header_size bits_per_pixel colors_used)"
    if f: "spec_fields dib = Inr (header_size, bits_per_pixel, colors_used)"
      and b: "0 \<le> bits_per_pixel"
  proof -
    have "region = region_of header_size bits_per_pixel colors_used"
      using dib_offset_readable [OF f] off by simp
    then show ?thesis using region_exact [OF f b] by (simp add: po_def)
  qed
  show ?thesis
    using size pix exact by (simp add: off po_def fs_def)
qed

theorem bmp_container_invariants_witness:
  "dib_to_bmp [12, 0, 0, 0, 1, 0, 1, 0, 1, 0, 1, 0] =
     Inr [66, 77, 26, 0, 0, 0, 0, 0, 0, 0, 34, 0, 0, 0,
          12, 0, 0, 0, 1, 0, 1, 0, 1, 0, 1, 0] \<and>
   spec_fields [12, 0, 0, 0, 1, 0, 1, 0, 1, 0, 1, 0] = Inr (12, 1, 0) \<and>
   dword2py_int (subrange 2 6 [66, 77, 26, 0, 0, 0, 0, 0, 0, 0, 34, 0, 0, 0,
          12, 0, 0, 0, 1, 0, 1, 0, 1, 0, 1, 0]) False = Inr 26 \<and>
   dword2py_int (subrange 10 14 [66, 77, 26, 0, 0, 0, 0, 0, 0, 0, 34, 0, 0, 0,
          12, 0, 0, 0, 1, 0, 1, 0, 1, 0, 1, 0]) False = Inr (14 + round_up4 (12 + 6))"
proof -
  have off: "dib_offset [12, 0, 0, 0, 1, 0, 1, 0, 1, 0, 1, 0] = Inr (PyFloat 18)"
    using dib_offset_readable [OF fields_legacy_1bpp] fl_18 by (simp add: region_of_def)
  have out: "dib_to_bmp [12, 0, 0, 0, 1, 0, 1, 0, 1, 0, 1, 0] =
     Inr [66, 77, 26, 0, 0, 0, 0, 0, 0, 0, 34, 0, 0, 0,
          12, 0, 0, 0, 1, 0, 1, 0, 1, 0, 1, 0]"
    using dib_to_bmp_region [OF off]
    by (simp add: round_up4_numeral spec_file_header_def le_bytes_4)
  show ?thesis
    using out fields_legacy_1bpp
      bmp_container_invariants [OF out, of 12 1 0]
    by (simp add: spec_palette_size_def)
qed

text \<open>
  C7 as stated makes \<open>colors_used\<close> irrelevant at 24 bits per pixel. The code adds
  \<open>colors_used * 3\<close> in exactly that case: with \<open>header_size = 40\<close>,
  \<open>bits_per_pixel = 24\<close> and \<open>colors_used = 1\<close> the palette size is 3, the header
  region 43, rounded up to 44, and the emitted pixel offset is 58.
\<close>

theorem colors_used_counts_at_24bpp:
  "spec_fields [40, 0, 0, 0, 1, 0, 0, 0, 1, 0, 0, 0, 1, 0, 24, 0, 0, 0, 0, 0,
       0, 0, 0, 0, 0, 0, 0, 0, 0, 0, 0, 0, 1, 0, 0, 0, 0, 0, 0, 0] = Inr (40, 24, 1) \<and>
   dib_palette [40, 0, 0, 0, 1, 0, 0, 0, 1, 0, 0, 0, 1, 0, 24, 0, 0, 0, 0, 0,
       0, 0, 0, 0, 0, 0, 0, 0, 0, 0, 0, 0, 1, 0, 0, 0, 0, 0, 0, 0] = Inr (PyInt 3) \<and>
   dib_to_bmp [40, 0, 0, 0, 1, 0, 0, 0, 1, 0, 0, 0, 1, 0, 24, 0, 0, 0, 0, 0,
       0, 0, 0, 0, 0, 0, 0, 0, 0, 0, 0, 0, 1, 0, 0, 0, 0, 0, 0, 0] =
     Inr ([66, 77] @ [54, 0, 0, 0] @ [0, 0, 0, 0] @ [58, 0, 0, 0] @
       [40, 0, 0, 0, 1, 0, 0, 0, 1, 0, 0, 0, 1, 0, 24, 0, 0, 0, 0, 0,
        0, 0, 0, 0, 0, 0, 0, 0, 0, 0, 0, 0, 1, 0, 0, 0, 0, 0, 0, 0])"
  using dib_to_bmp_fields [OF fields_24bpp_one_color] fields_24bpp_one_color
    dib_palette_fields [OF fields_24bpp_one_color]
  by (simp add: region_of_int round_up4_numeral spec_file_header_def le_bytes_4)

text \<open>
  C7, amended. For every DIB whose modern header has \<open>header_size = 40\<close> and
  \<open>bits_per_pixel = 24\<close> at offset 14, \<open>dib_to_bmp\<close> computes the palette size
  \<open>colors_used * 3\<close> and the header region \<open>40 + colors_used * 3\<close>; the emitted
  pixel offset is 14 plus the header region rounded up to a multiple of 4, provided it and
  \<open>14 + len(dib)\<close> fit 32 bits (\<open>struct.error\<close> otherwise). When
  \<open>colors_used = 0\<close> the palette size is 0, the header region is 40, already
  4-aligned, and the emitted pixel offset is 54.
\<close>

theorem dib_to_bmp_24bpp:
  assumes "spec_fields dib = Inr (40, 24, colors_used)"
  shows "dib_palette dib = Inr (PyInt (colors_used * 3)) \<and>
         dib_offset dib = Inr (PyInt (40 + colors_used * 3)) \<and>
         dib_to_bmp dib =
           (if 14 + round_up4 (of_int (40 + colors_used * 3)) < 4294967296 \<and>
               14 + int (length dib) < 4294967296
            then Inr (spec_file_header (14 + int (length dib))
                        (14 + round_up4 (of_int (40 + colors_used * 3))) @ dib)
            else Inl StructError) \<and>
         (colors_used = 0 \<and> 14 + int (length dib) < 4294967296 \<longrightarrow>
            dib_to_bmp dib = Inr (spec_file_header (14 + int (length dib)) 54 @ dib))"
proof -
  have pal: "dib_palette dib = Inr (PyInt (colors_used * 3))"
    using dib_palette_fields [OF assms] by simp
  have off: "dib_offset dib = Inr (PyInt (40 + colors_used * 3))"
    using dib_offset_readable [OF assms] by (simp add: region_of_def)
  have out: "dib_to_bmp dib =
           (if 14 + round_up4 (of_int (40 + colors_used * 3)) < 4294967296 \<and>
               14 + int (length dib) < 4294967296
            then Inr (spec_file_header (14 + int (length dib))
                        (14 + round_up4 (of_int (40 + colors_used * 3))) @ dib)
            else Inl StructError)"
    using dib_to_bmp_region [OF off] by simp
  have "round_up4 (of_int (40 + 0 * 3)) = 40"
    by (simp add: round_up4_numeral)
  then have zero: "colors_used = 0 \<and> 14 + int (length dib) < 4294967296 \<longrightarrow>
            dib_to_bmp dib = Inr (spec_file_header (14 + int (length dib)) 54 @ dib)"
    using out by auto
  from pal off out zero show ?thesis by blast
qed

theorem dib_to_bmp_24bpp_witness:
  "spec_fields [40, 0, 0, 0, 1, 0, 0, 0, 1, 0, 0, 0, 1, 0, 24, 0, 0, 0, 0, 0,
       0, 0, 0, 0, 0, 0, 0, 0, 0, 0, 0, 0, 0, 0, 0, 0, 0, 0, 0, 0] = Inr (40, 24, 0) \<and>
   dib_to_bmp [40, 0, 0, 0, 1, 0, 0, 0, 1, 0, 0, 0, 1, 0, 24, 0, 0, 0, 0, 0,
       0, 0, 0, 0, 0, 0, 0, 0, 0, 0, 0, 0, 0, 0, 0, 0, 0, 0, 0, 0] =
     Inr ([66, 77] @ [54, 0, 0, 0] @ [0, 0, 0, 0] @ [54, 0, 0, 0] @
       [40, 0, 0, 0, 1, 0, 0, 0, 1, 0, 0, 0, 1, 0, 24, 0, 0, 0, 0, 0,
        0, 0, 0, 0, 0, 0, 0, 0, 0, 0, 0, 0, 0, 0, 0, 0, 0, 0, 0, 0])"
  using dib_to_bmp_24bpp [OF fields_24bpp] fields_24bpp
  by (simp add: spec_file_header_def le_bytes_4 round_up4_numeral)

end
